(* ===== verification/Prelude.thy ===== *)
theory Prelude
  imports Main "HOL-Library.Sublist" "HOL-Library.AList" "HOL-Library.Word" "HOL-Library.Multiset"
begin

text \<open>
  Shared vocabulary of the correlator model (\<open>src/correlator.go\<close>).
  \<^item> The run's fatal errors and runtime panics as one datatype \<open>error\<close>; every
    \<open>fatal(...)\<close> call and every slice panic of the source is a value \<open>Inl e\<close>.
  \<^item> The command-line flags (lines 27--41) as the record \<open>config\<close>.
  \<^item> The functions of Go's \<open>strings\<close> package the program calls, written from the
    package's implementation: \<open>HasPrefix\<close>, \<open>HasSuffix\<close>, \<open>Split\<close> with a
    one-byte separator, \<open>Replace(s, old, new, 1)\<close> and \<open>ReplaceAll\<close>.  Go strings
    are byte strings and \<open>len\<close> counts bytes; HOL's \<open>char\<close> is a byte, so a Go string
    is a \<open>string\<close> of the same length.  Where \<open>old\<close> is empty, Go inserts \<open>new\<close>
    before every UTF-8 sequence; the model inserts it before every byte, which is the same
    on ASCII text.
  \<^item> Go maps as association lists: a \<open>map[string]string\<close> that a \<open>range\<close> visits is
    given by its entries in the order of that visit (distinct keys, \<open>map_of\<close> is the
    map).  Go randomises that order, so properties of a consumer are stated for every
    order of the same entries.
  \<^item> Generic lemmas on these functions, declared into the collection \<open>go_strings\<close>.
\<close>

named_theorems go_strings "characteristic equations of the Go strings model"

section \<open>Errors\<close>

text \<open>
  One constructor per \<open>fatal(...)\<close> call of \<open>main\<close>, \<open>substitute\<close> and
  \<open>ingestDb\<close> (process exit 1), and \<open>SliceOutOfRange\<close> for the runtime panic of a slice
  expression \<open>lines[i+1:]\<close> whose low bound exceeds the length, and
  \<open>IndexOutOfRange\<close> for an index expression \<open>xs[i]\<close> past the end (process exit 2).
\<close>

datatype error =
    NoApiFiles
  | ReplayWithoutAuth
  | ApiOpenFailed string
  | ApiParseFailed string
  | NoBurpFile
  | BurpOpenFailed
  | BurpParseFailed
  | NoFromDb
  | NoToDb
  | DbOpenFailed string
  | DbReadFailed string
  | UrlParseFailed string
  | JsonEncodeFailed
  | ReplayNotImplemented
  | SliceOutOfRange nat nat
  | IndexOutOfRange nat nat

text \<open>
  Sequencing of steps that may fail: the first \<open>Inl\<close> ends the run, as a call to
  \<open>fatal\<close> or a panic ends the Go process.
\<close>

definition bind_e :: "error + 'a \<Rightarrow> ('a \<Rightarrow> error + 'b) \<Rightarrow> error + 'b" where
  "bind_e m f = (case m of Inl e \<Rightarrow> Inl e | Inr x \<Rightarrow> f x)"

named_theorems bind_e_simps "evaluation of sequenced steps"

lemma bind_e_Inl [simp, bind_e_simps]: "bind_e (Inl e) f = Inl e"
  by (simp add: bind_e_def)

lemma bind_e_Inr [simp, bind_e_simps]: "bind_e (Inr x) f = f x"
  by (simp add: bind_e_def)

lemma bind_e_eq_Inr [bind_e_simps]: "bind_e m f = Inr y \<longleftrightarrow> (\<exists>x. m = Inr x \<and> f x = Inr y)"
  by (cases m) auto

lemma bind_e_eq_Inl [bind_e_simps]:
  "bind_e m f = Inl e \<longleftrightarrow> m = Inl e \<or> (\<exists>x. m = Inr x \<and> f x = Inl e)"
  by (cases m) auto

section \<open>Configuration\<close>

text \<open>The package-level flag variables of \<open>correlator.go\<close>, one field per flag.\<close>

record config =
  fuzzy :: int
  fromName :: string
  toName :: string
  burpName :: string
  b64 :: bool
  chatty :: bool
  noSub :: bool
  skipBody :: bool
  doReplay :: bool
  authHeader :: string
  cookieHeader :: string
  omitAuth :: bool
  emitJSON :: bool

definition default_config :: config where
  "default_config =
     \<lparr>fuzzy = 100, fromName = [], toName = [], burpName = [], b64 = False, chatty = False,
      noSub = False, skipBody = False, doReplay = False, authHeader = [], cookieHeader = [],
      omitAuth = False, emitJSON = False\<rparr>"

section \<open>Go maps\<close>

text \<open>
  A Go map as the list of its entries in the order one \<open>range\<close> statement visits them.
  A well-formed one has distinct keys.
\<close>

type_synonym ('k, 'v) gomap = "('k \<times> 'v) list"

definition gomap_ok :: "('k, 'v) gomap \<Rightarrow> bool" where
  "gomap_ok es \<longleftrightarrow> distinct (map fst es)"

section \<open>The Go strings package\<close>

definition has_prefix :: "string \<Rightarrow> string \<Rightarrow> bool" where
  "has_prefix s p \<longleftrightarrow> length p \<le> length s \<and> take (length p) s = p"

definition has_suffix :: "string \<Rightarrow> string \<Rightarrow> bool" where
  "has_suffix s p \<longleftrightarrow> length p \<le> length s \<and> drop (length s - length p) s = p"

text \<open>\<open>strings.Split(s, sep)\<close> for a separator of one byte.\<close>

fun go_split :: "string \<Rightarrow> char \<Rightarrow> string list" where
  "go_split [] c = [[]]"
| "go_split (x # xs) c =
     (let r = go_split xs c in if x = c then [] # r else (x # hd r) # tl r)"

text \<open>
  \<open>strings.Replace(s, old, new, 1)\<close>: the first occurrence of \<open>old\<close>, scanning from the
  left, is replaced; an empty \<open>old\<close> occurs at the start.
\<close>

fun replace_once :: "string \<Rightarrow> string \<Rightarrow> string \<Rightarrow> string" where
  "replace_once [] old new = (if old = [] then new else [])"
| "replace_once (c # cs) old new =
     (if has_prefix (c # cs) old then new @ drop (length old) (c # cs)
      else c # replace_once cs old new)"

text \<open>
  \<open>strings.ReplaceAll(s, old, new)\<close>: the non-overlapping occurrences of \<open>old\<close> found
  from the left are replaced; an empty \<open>old\<close> occurs before every character and at the end.
\<close>

function replace_all :: "string \<Rightarrow> string \<Rightarrow> string \<Rightarrow> string" where
  "replace_all s old new =
     (if old = [] then new @ concat (map (\<lambda>c. c # new) s)
      else case s of
        [] \<Rightarrow> []
      | c # cs \<Rightarrow>
          if has_prefix s old then new @ replace_all (drop (length old) s) old new
          else c # replace_all cs old new)"
  by pat_completeness auto
termination
  by (relation "measure (\<lambda>(s, _, _). length s)") (auto simp: has_prefix_def)

declare replace_all.simps [simp del]

text \<open>
  The inverse of \<open>go_split\<close>: the pieces joined with the separator between them
  (what \<open>strings.Join(ws, sep)\<close> computes).
\<close>

fun join_on :: "char \<Rightarrow> string list \<Rightarrow> string" where
  "join_on c [] = []"
| "join_on c [w] = w"
| "join_on c (w # v # ws) = w @ c # join_on c (v # ws)"

section \<open>Lemmas on the strings model\<close>

lemma has_prefix_iff [go_strings]: "has_prefix s p \<longleftrightarrow> prefix p s"
proof
  assume "has_prefix s p"
  then have "s = p @ drop (length p) s"
    by (metis append_take_drop_id has_prefix_def)
  then show "prefix p s"
    by (rule prefixI)
next
  assume "prefix p s"
  then show "has_prefix s p"
    by (auto simp: has_prefix_def prefix_def)
qed

lemma has_suffix_iff [go_strings]: "has_suffix s p \<longleftrightarrow> suffix p s"
proof
  assume "has_suffix s p"
  then show "suffix p s"
    by (metis has_suffix_def suffix_drop)
next
  assume "suffix p s"
  then show "has_suffix s p"
    by (auto simp: has_suffix_def suffix_def)
qed

lemma has_prefix_Nil [simp]: "has_prefix s []"
  by (simp add: has_prefix_def)

lemma has_prefix_Cons_Cons [simp]:
  "has_prefix (x # xs) (y # ys) \<longleftrightarrow> x = y \<and> has_prefix xs ys"
  by (auto simp: has_prefix_def)

lemma has_prefix_Nil_Cons [simp]: "\<not> has_prefix [] (y # ys)"
  by (simp add: has_prefix_def)

lemma has_prefix_append [simp]: "has_prefix (p @ s) p"
  by (simp add: has_prefix_def)

lemma fst_set_map_of_iff: "k \<in> fst ` set xs \<longleftrightarrow> (\<exists>v. map_of xs k = Some v)"
  by (metis dom_map_of_conv_image_fst domIff not_None_eq)

subsection \<open>Lists\<close>

text \<open>The first element of a list satisfying \<open>P\<close>, unfolded at a \<open>Cons\<close>.\<close>

lemma ex_first_Cons:
  "(\<exists>k < length (x # xs). P ((x # xs) ! k) \<and> (\<forall>j < k. \<not> P ((x # xs) ! j)) \<and> Q ((x # xs) ! k)) \<longleftrightarrow>
   (if P x then Q x else (\<exists>k < length xs. P (xs ! k) \<and> (\<forall>j < k. \<not> P (xs ! j)) \<and> Q (xs ! k)))"
proof (cases "P x")
  case True
  have "k = 0" if "\<forall>j < k. \<not> P ((x # xs) ! j)" for k
    using that True by (cases k) auto
  then have "(\<exists>k < length (x # xs). P ((x # xs) ! k) \<and> (\<forall>j < k. \<not> P ((x # xs) ! j)) \<and> Q ((x # xs) ! k)) \<longleftrightarrow> Q x"
    using True by (metis length_greater_0_conv less_nat_zero_code list.distinct(1) nth_Cons_0)
  with True show ?thesis by simp
next
  case False
  have "(\<exists>k < length (x # xs). P ((x # xs) ! k) \<and> (\<forall>j < k. \<not> P ((x # xs) ! j)) \<and> Q ((x # xs) ! k)) \<longleftrightarrow>
        (\<exists>k < length xs. P (xs ! k) \<and> (\<forall>j < k. \<not> P (xs ! j)) \<and> Q (xs ! k))"
  proof
    assume "\<exists>k < length (x # xs). P ((x # xs) ! k) \<and> (\<forall>j < k. \<not> P ((x # xs) ! j)) \<and> Q ((x # xs) ! k)"
    then obtain k where k: "k < length (x # xs)" "P ((x # xs) ! k)" "\<forall>j < k. \<not> P ((x # xs) ! j)" "Q ((x # xs) ! k)"
      by blast
    with False obtain k' where "k = Suc k'" by (cases k) auto
    with k show "\<exists>k < length xs. P (xs ! k) \<and> (\<forall>j < k. \<not> P (xs ! j)) \<and> Q (xs ! k)"
      by (auto intro!: exI [of _ k'] dest: spec [of _ "Suc _"])
  next
    assume "\<exists>k < length xs. P (xs ! k) \<and> (\<forall>j < k. \<not> P (xs ! j)) \<and> Q (xs ! k)"
    then obtain k where k: "k < length xs" "P (xs ! k)" "\<forall>j < k. \<not> P (xs ! j)" "Q (xs ! k)"
      by blast
    have "\<forall>j < Suc k. \<not> P ((x # xs) ! j)"
    proof (intro allI impI)
      fix j assume "j < Suc k"
      with k(3) False show "\<not> P ((x # xs) ! j)" by (cases j) auto
    qed
    with k show "\<exists>k < length (x # xs). P ((x # xs) ! k) \<and> (\<forall>j < k. \<not> P ((x # xs) ! j)) \<and> Q ((x # xs) ! k)"
      by (intro exI [of _ "Suc k"]) auto
  qed
  with False show ?thesis by simp
qed

subsection \<open>Split\<close>

lemma go_split_not_Nil [simp]: "go_split s c \<noteq> []"
  by (induction s) (auto simp: Let_def)

lemma go_split_join [go_strings]: "join_on c (go_split s c) = s"
proof (induction s)
  case Nil
  then show ?case by simp
next
  case (Cons x xs)
  obtain w ws where r: "go_split xs c = w # ws"
    by (cases "go_split xs c") auto
  with Cons.IH show ?case
    by (cases ws) (auto simp: Let_def)
qed

lemma go_split_no_sep: "w \<in> set (go_split s c) \<Longrightarrow> c \<notin> set w"
proof (induction s arbitrary: w)
  case Nil
  then show ?case by simp
next
  case (Cons x xs)
  obtain v vs where r: "go_split xs c = v # vs"
    by (cases "go_split xs c") auto
  with Cons show ?case
    by (auto simp: Let_def split: if_splits)
qed

lemma go_split_no_sep_eq [go_strings]: "c \<notin> set s \<Longrightarrow> go_split s c = [s]"
  by (induction s) (auto simp: Let_def)

lemma go_split_append_sep [go_strings]:
  "c \<notin> set a \<Longrightarrow> go_split (a @ c # b) c = a # go_split b c"
  by (induction a) (auto simp: Let_def)

lemma go_split_unique:
  assumes "ws \<noteq> []" and "\<forall>w \<in> set ws. c \<notin> set w"
  shows "go_split (join_on c ws) c = ws"
  using assms
proof (induction ws)
  case Nil
  then show ?case by simp
next
  case (Cons w ws)
  show ?case
  proof (cases ws)
    case Nil
    with Cons.prems show ?thesis by (simp add: go_split_no_sep_eq)
  next
    case (Cons v vs)
    with Cons.prems Cons.IH show ?thesis
      by (simp add: go_split_append_sep)
  qed
qed

subsection \<open>Replace once\<close>

lemma replace_once_no_occ [go_strings]:
  "\<not> sublist old s \<Longrightarrow> replace_once s old new = s"
  by (induction s) (auto simp: has_prefix_iff sublist_Cons_right)

lemma replace_once_occ:
  "sublist old s \<Longrightarrow> \<exists>a b. s = a @ old @ b \<and> replace_once s old new = a @ new @ b"
proof (induction s)
  case Nil
  then show ?case by simp
next
  case (Cons c cs)
  show ?case
  proof (cases "has_prefix (c # cs) old")
    case True
    then have "c # cs = [] @ old @ drop (length old) (c # cs)"
      by (metis append_Nil append_take_drop_id has_prefix_def)
    with True show ?thesis by (metis append_Nil replace_once.simps(2))
  next
    case False
    with Cons.prems have "sublist old cs"
      by (auto simp: has_prefix_iff sublist_Cons_right)
    with Cons.IH obtain a b where "cs = a @ old @ b" "replace_once cs old new = a @ new @ b"
      by blast
    with False show ?thesis
      by (metis Cons_eq_appendI replace_once.simps(2))
  qed
qed

lemma length_replace_once_occ [go_strings]:
  "sublist old s \<Longrightarrow> length (replace_once s old new) + length old = length s + length new"
  using replace_once_occ [of old s new] by auto

subsection \<open>Replace all\<close>

lemma replace_all_Nil_old [go_strings]:
  "replace_all s [] new = new @ concat (map (\<lambda>c. c # new) s)"
  by (simp add: replace_all.simps)

lemma replace_all_Nil [go_strings]: "replace_all [] old new = (if old = [] then new else [])"
  by (simp add: replace_all.simps)

lemma replace_all_Cons [go_strings]:
  "old \<noteq> [] \<Longrightarrow> replace_all (c # cs) old new =
     (if has_prefix (c # cs) old then new @ replace_all (drop (length old) (c # cs)) old new
      else c # replace_all cs old new)"
  by (simp add: replace_all.simps)

lemma replace_all_no_occ [go_strings]:
  "old \<noteq> [] \<Longrightarrow> \<not> sublist old s \<Longrightarrow> replace_all s old new = s"
  by (induction s) (auto simp: replace_all_Nil replace_all_Cons has_prefix_iff sublist_Cons_right)

end
