(* ===== verification/Float64.thy ===== *)
theory Float64
  imports Complex_Main
begin

text \<open>
  Go's \<open>float64\<close> arithmetic as far as \<open>match\<close> uses it: IEEE 754 binary64 values are
  the rationals \<open>m \<cdot> 2^e\<close> with a 53-bit significand, and each operation (the conversions
  \<open>float64(len(..))\<close>, the division and the product by 100) returns the exact result
  rounded to nearest, ties to even.  The exponent is not bounded: the operands of
  \<open>match\<close> lie between \<open>2^-64\<close> and \<open>100\<close>, far inside the normal range, so overflow and
  subnormals never arise.  \<open>int64(f)\<close> truncates towards zero (\<open>go_trunc\<close>).  The
  lemmas bound the rounding error by \<open>2^-53\<close> relative, show that integers below
  \<open>2^53\<close> are exact, and bound the error of \<open>(r/o)*100\<close>.
\<close>

section \<open>Rounding to binary64\<close>

function bitlen :: "int \<Rightarrow> int" where
  "bitlen n = (if n \<le> 0 then 0 else 1 + bitlen (n div 2))"
  by auto
termination by (relation "measure nat") auto

declare bitlen.simps [simp del]

text \<open>The exponent \<open>e\<close> with \<open>2^e \<le> q < 2^(e+1)\<close>, from the bit lengths of numerator and denominator.\<close>

definition f64_exp :: "rat \<Rightarrow> int" where
  "f64_exp q =
     (let (a, b) = quotient_of q;
          e0 = bitlen a - bitlen b
      in if power_int 2 e0 \<le> q then e0 else e0 - 1)"

text \<open>Round to the nearest integer, ties to even.\<close>

definition rne :: "rat \<Rightarrow> int" where
  "rne m =
     (let n = \<lfloor>m\<rfloor>; f = m - of_int n
      in if f < 1/2 then n else if 1/2 < f then n + 1 else if even n then n else n + 1)"

text \<open>The binary64 value nearest to \<open>q\<close>: \<open>q\<close> scaled to a 53-bit significand, rounded, scaled back.\<close>

definition f64_round :: "rat \<Rightarrow> rat" where
  "f64_round q =
     (if q = 0 then 0
      else let u = power_int 2 (f64_exp \<bar>q\<bar> - 52) in of_int (rne (q / u)) * u)"

text \<open>Go's conversion \<open>int64(f)\<close> of a float: truncation towards zero.\<close>

definition go_trunc :: "rat \<Rightarrow> int" where
  "go_trunc x = (if 0 \<le> x then \<lfloor>x\<rfloor> else \<lceil>x\<rceil>)"

section \<open>Lemmas\<close>

lemma bitlen_bounds: "0 < n \<Longrightarrow> 0 < bitlen n \<and> 2 ^ nat (bitlen n - 1) \<le> n \<and> n < 2 ^ nat (bitlen n)"
proof (induction n rule: bitlen.induct)
  case (1 n)
  have b: "bitlen n = 1 + bitlen (n div 2)" using "1.prems" by (simp add: bitlen.simps)
  show ?case
  proof (cases "n = 1")
    case True
    then show ?thesis by (simp add: bitlen.simps)
  next
    case False
    with "1.prems" have "0 < n div 2" by simp
    with "1.IH" "1.prems" have ih: "0 < bitlen (n div 2) \<and> 2 ^ nat (bitlen (n div 2) - 1) \<le> n div 2 \<and>
        n div 2 < 2 ^ nat (bitlen (n div 2))"
      by simp
    then have p: "nat (bitlen n) = Suc (nat (bitlen (n div 2)))" "nat (bitlen n - 1) = nat (bitlen (n div 2))"
      using b by (simp_all add: nat_add_distrib)
    have "(2::int) ^ nat (bitlen (n div 2)) = 2 * 2 ^ nat (bitlen (n div 2) - 1)"
      using ih by (simp flip: power_Suc) (simp add: Suc_nat_eq_nat_zadd1)
    moreover have "n = 2 * (n div 2) + n mod 2" "0 \<le> n mod 2" "n mod 2 < 2" by simp_all
    ultimately have "2 ^ nat (bitlen (n div 2)) \<le> n" "n < 2 * 2 ^ nat (bitlen (n div 2))"
      using ih by linarith+
    then show ?thesis using p b ih by simp
  qed
qed

lemma bitlen_bounds_rat:
  assumes "0 < n"
  shows "power_int (2::rat) (bitlen n - 1) \<le> of_int n \<and> of_int n < power_int (2::rat) (bitlen n)"
proof -
  have bl: "0 < bitlen n" "of_int (2 ^ nat (bitlen n - 1)) \<le> (of_int n :: rat)" "(of_int n :: rat) < of_int (2 ^ nat (bitlen n))"
    using bitlen_bounds [OF assms] by (simp_all only: of_int_le_iff of_int_less_iff)
  have "power_int (2::rat) (bitlen n - 1) = 2 ^ nat (bitlen n - 1)"
    using bl(1) by (simp add: power_int_def)
  moreover have "power_int (2::rat) (bitlen n) = 2 ^ nat (bitlen n)"
    using bl(1) by (simp add: power_int_def)
  ultimately show ?thesis using bl(2,3) by simp
qed

lemma f64_exp_bounds:
  assumes "0 < q"
  shows "power_int 2 (f64_exp q) \<le> q \<and> q < power_int 2 (f64_exp q + 1)"
proof -
  obtain a b where ab: "quotient_of q = (a, b)" by fastforce
  have b0: "0 < b" using quotient_of_denom_pos [OF ab] .
  have q: "q = of_int a / of_int b" using quotient_of_div [OF ab] .
  have a0: "0 < a" using assms b0 by (simp add: q zero_less_divide_iff)
  define la where "la = bitlen a"
  define lb where "lb = bitlen b"
  have ba: "power_int 2 (la - 1) \<le> (of_int a :: rat)" "(of_int a :: rat) < power_int 2 la"
    using bitlen_bounds_rat [of a] a0 by (simp_all add: la_def)
  have bb: "power_int 2 (lb - 1) \<le> (of_int b :: rat)" "(of_int b :: rat) < power_int 2 lb"
    using bitlen_bounds_rat [of b] b0 by (simp_all add: lb_def)
  define e0 where "e0 = la - lb"
  have bpos: "(0::rat) < of_int b" using b0 by simp
  have lo: "power_int 2 (e0 - 1) < q"
  proof -
    have "power_int (2::rat) (e0 - 1) * power_int 2 lb = power_int 2 (la - 1)"
      using power_int_add [of "2::rat" "e0 - 1" lb] by (simp add: e0_def)
    also have "\<dots> \<le> of_int a" by (rule ba(1))
    finally have "power_int (2::rat) (e0 - 1) * power_int 2 lb \<le> of_int a" .
    moreover have "power_int (2::rat) (e0 - 1) * of_int b < power_int (2::rat) (e0 - 1) * power_int 2 lb"
      using bb(2) by (simp add: mult_strict_left_mono)
    ultimately have "power_int (2::rat) (e0 - 1) * of_int b < of_int a" by linarith
    then show ?thesis using bpos by (simp add: q pos_less_divide_eq)
  qed
  have hi: "q < power_int 2 (e0 + 1)"
  proof -
    have "power_int (2::rat) (e0 + 1) * power_int 2 (lb - 1) = power_int 2 la"
      using power_int_add [of "2::rat" "e0 + 1" "lb - 1"] by (simp add: e0_def)
    moreover have "power_int (2::rat) (e0 + 1) * power_int 2 (lb - 1) \<le> power_int (2::rat) (e0 + 1) * of_int b"
      using bb(1) by (simp add: mult_left_mono)
    ultimately have "of_int a < power_int (2::rat) (e0 + 1) * of_int b" using ba(2) by linarith
    then show ?thesis using bpos by (simp add: q divide_less_eq)
  qed
  have e: "f64_exp q = (if power_int 2 e0 \<le> q then e0 else e0 - 1)"
    by (simp add: f64_exp_def ab e0_def la_def lb_def)
  show ?thesis
  proof (cases "power_int 2 e0 \<le> q")
    case True
    then show ?thesis using e hi by simp
  next
    case False
    then show ?thesis using e lo by simp
  qed
qed

lemma rne_err: "\<bar>of_int (rne m) - m\<bar> \<le> 1/2"
proof -
  have "of_int \<lfloor>m\<rfloor> \<le> m" "m < of_int \<lfloor>m\<rfloor> + 1" by linarith+
  then show ?thesis by (auto simp: rne_def Let_def)
qed

lemma rne_int [simp]: "rne (of_int n) = n"
  by (simp add: rne_def)

lemma f64_round_err: "\<bar>f64_round q - q\<bar> \<le> \<bar>q\<bar> / 2 ^ 53"
proof (cases "q = 0")
  case True
  then show ?thesis by (simp add: f64_round_def)
next
  case False
  define e where "e = f64_exp \<bar>q\<bar>"
  define u :: rat where "u = power_int 2 (e - 52)"
  have u0: "0 < u" by (simp add: u_def)
  have eb: "power_int 2 e \<le> \<bar>q\<bar>" using f64_exp_bounds [of "\<bar>q\<bar>"] False by (simp add: e_def)
  have "f64_round q - q = (of_int (rne (q / u)) - q / u) * u"
    using False u0 by (simp add: f64_round_def e_def u_def Let_def algebra_simps)
  then have "\<bar>f64_round q - q\<bar> = \<bar>of_int (rne (q / u)) - q / u\<bar> * u"
    using u0 by (simp add: abs_mult)
  also have "\<dots> \<le> u / 2" using rne_err [of "q / u"] u0 by (simp add: mult_right_mono)
  also have "u / 2 = power_int 2 e / 2 ^ 53"
    using power_int_add [of "2::rat" "e - 52" "-1"] by (simp add: u_def power_int_diff)
  also have "\<dots> \<le> \<bar>q\<bar> / 2 ^ 53" using eb by (simp add: divide_right_mono)
  finally show ?thesis .
qed

lemma f64_round_nat:
  assumes "n < 2 ^ 53"
  shows "f64_round (of_nat n) = of_nat n"
proof (cases "n = 0")
  case True
  then show ?thesis by (simp add: f64_round_def)
next
  case False
  define e where "e = f64_exp (of_nat n)"
  have eb: "power_int 2 e \<le> (of_nat n :: rat)" "(of_nat n :: rat) < power_int 2 (e + 1)"
    using f64_exp_bounds [of "of_nat n"] False by (simp_all add: e_def)
  have e0: "0 \<le> e"
  proof (rule ccontr)
    assume "\<not> 0 \<le> e"
    then have "power_int (2::rat) (e + 1) \<le> power_int 2 0"
      using power_int_increasing [of "e + 1" 0 "2::rat"] by simp
    moreover have "(1::rat) \<le> of_nat n" using False by simp
    ultimately show False using eb(2) by simp
  qed
  have "(of_nat n :: rat) < of_nat (2 ^ 53)" using assms by (simp only: of_nat_less_iff)
  then have "power_int (2::rat) e < power_int 2 53" using eb by simp
  then have e52: "e \<le> 52" using power_int_le_imp_less_exp [of "2::rat" e 53] by simp
  have "e - 52 = - int (nat (52 - e))" using e52 by simp
  then have u: "power_int (2::rat) (e - 52) = 1 / 2 ^ nat (52 - e)"
    by (simp only: power_int_minus_divide power_int_of_nat)
  have r: "rne (of_nat n * 2 ^ nat (52 - e)) = int n * 2 ^ nat (52 - e)"
    using rne_int [of "int n * 2 ^ nat (52 - e)"] by simp
  show ?thesis using False by (simp add: f64_round_def e_def [symmetric] u r)
qed

lemma f64_round_nonneg: "0 \<le> q \<Longrightarrow> 0 \<le> f64_round q"
proof -
  assume q: "0 \<le> q"
  have "\<bar>f64_round q - q\<bar> \<le> q / 2 ^ 53" using f64_round_err [of q] q by simp
  then have "q - q / 2 ^ 53 \<le> f64_round q" by (simp only: abs_le_iff) linarith
  moreover have "q / 2 ^ 53 \<le> q" using q by (simp add: divide_le_eq)
  ultimately show ?thesis by linarith
qed

lemma f64_percent_close:
  assumes "0 < origin" and "r \<le> origin"
  shows "\<bar>f64_round (f64_round (of_nat r / of_nat origin) * 100) - of_nat (100 * r) / of_nat origin\<bar>
           \<le> 201 / 2 ^ 53"
proof -
  define x :: rat where "x = of_nat r / of_nat origin"
  define p where "p = f64_round x * 100"
  have x0: "0 \<le> x" by (simp add: x_def)
  have x1: "x \<le> 1" using assms by (simp add: x_def divide_le_eq)
  have e1: "\<bar>f64_round x - x\<bar> \<le> 1 / 2 ^ 53"
    using f64_round_err [of x] x0 x1 by (simp add: divide_right_mono)
  have "p - 100 * x = 100 * (f64_round x - x)" by (simp add: p_def algebra_simps)
  then have "\<bar>p - 100 * x\<bar> = 100 * \<bar>f64_round x - x\<bar>" by (simp only: abs_mult)
  then have e2: "\<bar>p - 100 * x\<bar> \<le> 100 / 2 ^ 53" using e1 by simp
  then have "\<bar>p - 100 * x\<bar> \<le> 1" by simp
  then have "\<bar>p\<bar> \<le> 101" using x0 x1 unfolding abs_le_iff by linarith
  then have e3: "\<bar>f64_round p - p\<bar> \<le> 101 / 2 ^ 53"
    using f64_round_err [of p] by (simp add: divide_right_mono order_trans)
  have "100 * x = of_nat (100 * r) / of_nat origin" by (simp add: x_def)
  moreover have "\<bar>f64_round p - 100 * x\<bar> \<le> 201 / 2 ^ 53"
  proof -
    define c :: rat where "c = 1 / 2 ^ 53"
    have "\<bar>p - 100 * x\<bar> \<le> 100 * c" "\<bar>f64_round p - p\<bar> \<le> 101 * c"
      using e2 e3 by (simp_all add: c_def)
    then have "\<bar>f64_round p - 100 * x\<bar> \<le> 201 * c" unfolding abs_le_iff by linarith
    then show ?thesis by (simp add: c_def)
  qed
  ultimately show ?thesis by (simp add: p_def x_def [symmetric])
qed

lemma floor_near:
  fixes y :: rat
  assumes o: "0 < origin" and near: "\<bar>y - of_nat a / of_nat origin\<bar> < 1 / of_nat origin"
  shows "\<lfloor>y\<rfloor> = int (a div origin) \<or> (a mod origin = 0 \<and> \<lfloor>y\<rfloor> = int (a div origin) - 1)"
proof -
  define k where "k = a div origin"
  define m where "m = a mod origin"
  have "a = origin * k + m" by (simp add: k_def m_def)
  then have e: "(of_nat a :: rat) = of_nat origin * of_nat k + of_nat m" by (metis of_nat_add of_nat_mult)
  have m_lt: "m < origin" using o by (simp add: m_def)
  have op: "(0::rat) < of_nat origin" using o by simp
  have "\<bar>y - of_nat a / of_nat origin\<bar> * of_nat origin < 1" using near op by (simp add: less_divide_eq)
  moreover have "\<bar>y - of_nat a / of_nat origin\<bar> * of_nat origin = \<bar>y * of_nat origin - of_nat a\<bar>"
    using op by (simp add: abs_mult flip: abs_of_pos) (simp add: field_simps)
  ultimately have d: "\<bar>y * of_nat origin - of_nat a\<bar> < 1" by simp
  have lo: "of_int (int k) \<le> y" if "0 < m"
  proof -
    have "of_nat k * of_nat origin \<le> y * (of_nat origin :: rat)" using d e that by (simp add: abs_less_iff algebra_simps)
    then show ?thesis using op by simp
  qed
  have hi: "y < of_int (int k) + 1"
  proof -
    have "y * of_nat origin < (of_nat k + 1) * (of_nat origin :: rat)"
      using d e m_lt by (simp add: abs_less_iff algebra_simps)
    then show ?thesis using op by (simp add: mult_less_cancel_right)
  qed
  have lo': "of_int (int k - 1) \<le> y"
  proof -
    have "(of_nat k - 1) * of_nat origin \<le> y * (of_nat origin :: rat)"
      using d e o by (simp add: abs_less_iff algebra_simps)
    then show ?thesis using op by (simp add: mult_le_cancel_right)
  qed
  show ?thesis
  proof (cases "0 < m")
    case True
    then have "\<lfloor>y\<rfloor> = int k" using lo hi by (simp add: floor_eq_iff)
    then show ?thesis by (simp add: k_def)
  next
    case False
    then have m0: "a mod origin = 0" by (simp add: m_def)
    show ?thesis
    proof (cases "of_int (int k) \<le> y")
      case True
      then have "\<lfloor>y\<rfloor> = int k" using hi by (simp add: floor_eq_iff)
      then show ?thesis by (simp add: k_def)
    next
      case False
      then have "\<lfloor>y\<rfloor> = int k - 1" using lo' by (simp add: floor_eq_iff)
      then show ?thesis using m0 by (simp add: k_def)
    qed
  qed
qed

lemma f64_hundredth: "f64_round (f64_round (1 / 100) * 100) = 1"
  by code_simp

lemma f64_round_nat_div:
  assumes "0 < origin" and "r \<le> origin" and "origin < 2 ^ 53"
  shows "f64_round (of_nat r) / f64_round (of_nat origin) = of_nat r / of_nat origin"
  using assms by (simp add: f64_round_nat)

lemma go_percent_near:
  assumes o: "0 < origin" and r: "r \<le> origin" and b: "origin < 2 ^ 44"
  defines "y \<equiv> f64_round (f64_round (f64_round (of_nat r) / f64_round (of_nat origin)) * 100)"
  shows "go_trunc y = int ((100 * r) div origin) \<or>
         ((100 * r) mod origin = 0 \<and> go_trunc y = int ((100 * r) div origin) - 1)"
proof -
  have b53: "origin < 2 ^ 53" using b by simp
  have y: "y = f64_round (f64_round (of_nat r / of_nat origin) * 100)"
    using f64_round_nat_div [OF o r b53] by (simp add: y_def)
  have "0 \<le> y" unfolding y by (intro f64_round_nonneg) (simp add: f64_round_nonneg)
  then have t: "go_trunc y = \<lfloor>y\<rfloor>" by (simp add: go_trunc_def)
  have "(201::rat) * of_nat origin < 201 * 2 ^ 44" using b by (simp flip: of_nat_less_iff)
  then have "(201::rat) / 2 ^ 53 < 1 / of_nat origin" using o by (simp add: field_simps)
  with f64_percent_close [OF o r] have "\<bar>y - of_nat (100 * r) / of_nat origin\<bar> < 1 / of_nat origin"
    unfolding y by linarith
  from floor_near [OF o this] show ?thesis by (simp add: t)
qed

end
