(* ===== verification/Matcher.thy ===== *)
theory Matcher
  imports Complex_Main Prelude Float64
begin

text \<open>
  PathMatcher: \<open>match\<close> (correlator.go lines 293--323) decides whether an observed
  Burp path corresponds to an OpenAPI path template, and \<open>find_path\<close> is the closure of
  \<open>main\<close> (lines 129--152) that scans the templates of one API for the first one that
  matches, skipping templates shorter than two bytes.  The threshold \<open>*fuzzy\<close> is a
  parameter; the diagnostic writes under \<open>*chatty\<close> are in theory \<open>Process\<close>.  The
  percentage \<open>int64((remainder/origin)*100)\<close> is computed as Go computes it, in
  \<open>float64\<close> (theory \<open>Float64\<close>); \<open>exact_delta\<close> is the same percentage on exact
  numbers, and the lemmas show the two agree except when the exact percentage is an
  integer, where Go's can be one more.
\<close>

section \<open>Definitions\<close>

text \<open>
  \<open>origin := float64(len(burp))\<close>, \<open>remainder := float64(len(modified))\<close>,
  \<open>delta := int64(100) - int64((remainder/origin)*100)\<close>: each conversion and operation
  rounds to binary64; \<open>int64\<close> truncates towards zero.
\<close>

definition fuzzy_delta :: "nat \<Rightarrow> nat \<Rightarrow> int" where
  "fuzzy_delta origin remainder =
     100 - go_trunc (f64_round (f64_round (f64_round (of_nat remainder) / f64_round (of_nat origin)) * 100))"

text \<open>The same percentage computed on exact numbers.\<close>

definition exact_delta :: "nat \<Rightarrow> nat \<Rightarrow> int" where
  "exact_delta origin remainder = 100 - int ((100 * remainder) div origin)"

definition match :: "int \<Rightarrow> string \<Rightarrow> string \<Rightarrow> bool" where
  "match fz burp api =
     (if has_suffix burp api then True
      else
        let modified = replace_once burp api []
        in if length modified = length burp then False
           else fz \<le> fuzzy_delta (length burp) (length modified))"

text \<open>
  The scan of one API's templates: \<open>pathIndex\<close> starts at \<open>-1\<close> and is incremented for
  every template, skipped ones included; the first template that matches ends the scan.
\<close>

fun scan_paths :: "int \<Rightarrow> string \<Rightarrow> int \<Rightarrow> string list \<Rightarrow> bool \<times> int" where
  "scan_paths fz burp i [] = (False, -1)"
| "scan_paths fz burp i (p # ps) =
     (let i' = i + 1 in
      if length p < 2 then scan_paths fz burp i' ps
      else if match fz burp p then (True, i')
      else scan_paths fz burp i' ps)"

definition find_path :: "int \<Rightarrow> string \<Rightarrow> string list \<Rightarrow> bool \<times> int" where
  "find_path fz burp paths = scan_paths fz burp (-1) paths"

text \<open>
  Reference for the scan: the templates that qualify (at least two bytes long and
  matching), numbered in declared order; the first of them, or \<open>(False, -1)\<close>.
\<close>

definition candidate :: "int \<Rightarrow> string \<Rightarrow> string \<Rightarrow> bool" where
  "candidate fz burp p \<longleftrightarrow> 2 \<le> length p \<and> match fz burp p"

definition first_candidate :: "int \<Rightarrow> string \<Rightarrow> string list \<Rightarrow> bool \<times> int" where
  "first_candidate fz burp ps =
     (case filter (\<lambda>(k, p). candidate fz burp p) (enumerate 0 ps) of
        [] \<Rightarrow> (False, -1)
      | (k, _) # _ \<Rightarrow> (True, int k))"

section \<open>The percentage\<close>

lemma fuzzy_delta_exact:
  assumes "0 < origin" and "remainder \<le> origin" and "origin < 2 ^ 44"
  shows "fuzzy_delta origin remainder = exact_delta origin remainder \<or>
         ((100 * remainder) mod origin = 0 \<and> fuzzy_delta origin remainder = exact_delta origin remainder + 1)"
  using go_percent_near [OF assms] by (auto simp: fuzzy_delta_def exact_delta_def)

lemma f64_twenty_nine: "go_trunc (f64_round (f64_round (29 / 100) * 100)) = 28"
  by code_simp

lemma fuzzy_delta_le_100: "fuzzy_delta origin remainder \<le> 100"
proof -
  have "0 \<le> f64_round (f64_round (f64_round (of_nat remainder) / f64_round (of_nat origin)) * 100)"
    by (intro f64_round_nonneg mult_nonneg_nonneg divide_nonneg_nonneg) simp_all
  then show ?thesis by (simp add: fuzzy_delta_def go_trunc_def)
qed

lemma fuzzy_delta_ge_1:
  assumes "remainder < origin" and "origin < 2 ^ 44"
  shows "1 \<le> fuzzy_delta origin remainder"
proof -
  have "100 * remainder < 100 * origin" using assms by simp
  then have "(100 * remainder) div origin < 100"
    by (simp add: div_less_iff_less_mult mult.commute)
  then have "1 \<le> exact_delta origin remainder" by (simp add: exact_delta_def)
  with fuzzy_delta_exact [of origin remainder] assms show ?thesis by auto
qed

lemma fuzzy_delta_hundredth: "0 < r \<Longrightarrow> r < 2 ^ 44 \<Longrightarrow> fuzzy_delta (100 * r) r = 99"
proof -
  assume r: "0 < r" "r < 2 ^ 44"
  have "(of_nat r :: rat) / of_nat (100 * r) = 1 / 100" using r by simp
  moreover have "f64_round (of_nat r) = of_nat r" using r by (simp add: f64_round_nat)
  moreover have "(100 * r) < 2 ^ 53" using r by simp
  then have "f64_round (of_nat (100 * r)) = of_nat (100 * r)" by (rule f64_round_nat)
  ultimately show ?thesis using r by (simp add: fuzzy_delta_def f64_hundredth go_trunc_def)
qed

lemma fuzzy_delta_eq_100_iff:
  assumes "0 < origin" and "remainder \<le> origin" and "origin < 2 ^ 44"
  shows "fuzzy_delta origin remainder = 100 \<longleftrightarrow> 100 * remainder < origin"
proof
  assume "100 * remainder < origin"
  then have "exact_delta origin remainder = 100" by (simp add: exact_delta_def)
  then show "fuzzy_delta origin remainder = 100"
    using fuzzy_delta_exact [OF assms] fuzzy_delta_le_100 [of origin remainder] by auto
next
  assume f: "fuzzy_delta origin remainder = 100"
  show "100 * remainder < origin"
  proof (rule ccontr)
    assume "\<not> 100 * remainder < origin"
    then have "0 < (100 * remainder) div origin" using assms(1) by (simp add: div_greater_zero_iff)
    then have "exact_delta origin remainder \<le> 99" by (simp add: exact_delta_def)
    with f fuzzy_delta_exact [OF assms] have "exact_delta origin remainder = 99"
      and m: "(100 * remainder) mod origin = 0" by auto
    then have "(100 * remainder) div origin = 1" by (simp add: exact_delta_def)
    with m have o: "origin = 100 * remainder" by (metis div_mult_mod_eq mult_1 add_0_right)
    then have "0 < remainder" "remainder < 2 ^ 44" using assms by simp_all
    with fuzzy_delta_hundredth f o show False by simp
  qed
qed

section \<open>Matching\<close>

text \<open>
  An occurrence of a non-empty template shortens the path by the template's length, so the
  test "no change" of the source is exactly "no occurrence".
\<close>

lemma length_replace_once_Nil:
  assumes "sublist api burp"
  shows "length (replace_once burp api []) = length burp - length api"
  using length_replace_once_occ [OF assms, of "[]"] by simp

lemma sublist_length_le: "sublist api burp \<Longrightarrow> length api \<le> length burp"
  by (auto simp: sublist_def)

lemma match_unfold:
  "match fz burp api \<longleftrightarrow>
     suffix api burp \<or>
     (sublist api burp \<and> fz \<le> fuzzy_delta (length burp) (length burp - length api))"
proof (cases "suffix api burp")
  case True
  then show ?thesis by (simp add: match_def has_suffix_iff)
next
  case False
  then have ne: "api \<noteq> []" by auto
  show ?thesis
  proof (cases "sublist api burp")
    case True
    have "0 < length api" using ne by simp
    with sublist_length_le [OF True] have "length burp - length api \<noteq> length burp"
      by arith
    then have "length (replace_once burp api []) \<noteq> length burp"
      by (simp add: length_replace_once_Nil [OF True])
    with True False show ?thesis
      by (simp add: match_def has_suffix_iff length_replace_once_Nil Let_def)
  next
    case nosub: False
    with False show ?thesis
      by (simp add: match_def has_suffix_iff replace_once_no_occ)
  qed
qed

section \<open>Scanning the templates of one API\<close>

lemma scan_paths_first:
  "scan_paths fz burp (int n - 1) ps =
     (case filter (\<lambda>(k, p). candidate fz burp p) (enumerate n ps) of
        [] \<Rightarrow> (False, -1)
      | (k, _) # _ \<Rightarrow> (True, int k))"
proof (induction ps arbitrary: n)
  case Nil
  then show ?case by simp
next
  case (Cons p ps)
  then show ?case
    using Cons.IH [of "Suc n"]
    by (auto simp: candidate_def Let_def split: list.splits)
qed

lemma find_path_first_candidate: "find_path fz burp ps = first_candidate fz burp ps"
  using scan_paths_first [of fz burp 0 ps] by (simp add: find_path_def first_candidate_def)

lemma filter_enumerate_Cons:
  "filter P (enumerate n xs) = (k, p) # rest \<Longrightarrow>
     n \<le> k \<and> k < n + length xs \<and> xs ! (k - n) = p \<and> P (k, p) \<and>
     (\<forall>j. n \<le> j \<and> j < k \<longrightarrow> \<not> P (j, xs ! (j - n)))"
proof (induction xs arbitrary: n)
  case Nil
  then show ?case by simp
next
  case (Cons x xs)
  show ?case
  proof (cases "P (n, x)")
    case True
    with Cons.prems show ?thesis by auto
  next
    case False
    with Cons.prems have "filter P (enumerate (Suc n) xs) = (k, p) # rest" by simp
    then have IH: "Suc n \<le> k \<and> k < Suc n + length xs \<and> xs ! (k - Suc n) = p \<and> P (k, p) \<and>
        (\<forall>j. Suc n \<le> j \<and> j < k \<longrightarrow> \<not> P (j, xs ! (j - Suc n)))"
      by (rule Cons.IH)
    have nth: "(x # xs) ! (j - n) = xs ! (j - Suc n)" if "Suc n \<le> j" for j
    proof -
      from that have "j - n = Suc (j - Suc n)" by arith
      then show ?thesis by simp
    qed
    show ?thesis
    proof (intro conjI allI impI)
      fix j assume j: "n \<le> j \<and> j < k"
      show "\<not> P (j, (x # xs) ! (j - n))"
      proof (cases "j = n")
        case True
        with False show ?thesis by simp
      next
        case ne: False
        with j have "Suc n \<le> j" by simp
        with IH j nth show ?thesis by simp
      qed
    qed (use IH nth in auto)
  qed
qed

section \<open>Properties of the matcher\<close>

text \<open>
  C2: scanning the templates of one API returns \<open>(True, k)\<close> for the first template, in
  declared order, that is at least two bytes long and matches the observed path, and
  \<open>(False, -1)\<close> when no template qualifies.
\<close>

theorem find_path_spec:
  "find_path fz burp ps =
     (if \<exists>k < length ps. 2 \<le> length (ps ! k) \<and> match fz burp (ps ! k)
      then (True, int (LEAST k. k < length ps \<and> 2 \<le> length (ps ! k) \<and> match fz burp (ps ! k)))
      else (False, -1))"
proof (cases "filter (\<lambda>(k, p). candidate fz burp p) (enumerate 0 ps)")
  case Nil
  then have "\<not> candidate fz burp (ps ! k)" if "k < length ps" for k
    using that by (auto simp: filter_empty_conv in_set_enumerate_eq)
  with Nil show ?thesis
    by (auto simp: find_path_first_candidate first_candidate_def candidate_def)
next
  case (Cons kp rest)
  obtain k p where kp: "kp = (k, p)" by (cases kp)
  with Cons have f: "filter (\<lambda>(k, p). candidate fz burp p) (enumerate 0 ps) = (k, p) # rest" by simp
  from filter_enumerate_Cons [OF f] have k: "k < length ps" "candidate fz burp (ps ! k)"
    and before: "\<forall>j < k. \<not> candidate fz burp (ps ! j)" by auto
  have "(LEAST j. j < length ps \<and> 2 \<le> length (ps ! j) \<and> match fz burp (ps ! j)) = k"
  proof (rule Least_equality)
    show "k < length ps \<and> 2 \<le> length (ps ! k) \<and> match fz burp (ps ! k)"
      using k by (simp add: candidate_def)
    show "k \<le> y" if "y < length ps \<and> 2 \<le> length (ps ! y) \<and> match fz burp (ps ! y)" for y
      using before that by (metis candidate_def not_le)
  qed
  with k f show ?thesis
    by (auto simp: find_path_first_candidate first_candidate_def candidate_def)
qed

text \<open>
  The scan reports no match, with index \<open>-1\<close>, exactly when no template of the API
  is at least two bytes long and matches.
\<close>

lemma find_path_none:
  "find_path fz burp ps = (False, -1) \<longleftrightarrow>
     (\<forall>p \<in> set ps. \<not> (2 \<le> length p \<and> match fz burp p))"
proof -
  have "set ps = snd ` set (enumerate 0 ps)"
    by (metis list.set_map map_snd_enumerate)
  then have "filter (\<lambda>(k, p). candidate fz burp p) (enumerate 0 ps) = [] \<longleftrightarrow>
      (\<forall>p \<in> set ps. \<not> candidate fz burp p)"
    by (auto simp: filter_empty_conv)
  then show ?thesis
    by (auto simp: find_path_first_candidate first_candidate_def candidate_def split: list.splits)
qed

text \<open>
  C3: an observed path that ends with the template matches at every threshold.
\<close>

theorem match_suffix:
  assumes "suffix api burp"
  shows "match fz burp api"
  using assms by (simp add: match_unfold)

text \<open>
  C4: a template that does not occur in the observed path never matches, whatever the
  threshold.
\<close>

theorem match_requires_occurrence:
  assumes "\<not> sublist api burp"
  shows "\<not> match fz burp api"
  using assms by (auto simp: match_unfold)

text \<open>
  C29: lowering the threshold never loses a match.
\<close>

theorem match_threshold_mono:
  assumes "match t1 burp api" and "t2 \<le> t1"
  shows "match t2 burp api"
  using assms by (auto simp: match_unfold)

text \<open>
  C30: at the default threshold 100 a template matches when it is a suffix of the observed
  path, or when it occurs in it and the rest of the path is less than one hundredth of the
  path's length.
\<close>

theorem match_at_100:
  assumes "length burp < 2 ^ 44"
  shows "match 100 burp api \<longleftrightarrow>
     suffix api burp \<or> (sublist api burp \<and> 100 * (length burp - length api) < length burp)"
proof (cases "burp = []")
  case True
  then show ?thesis by (auto simp: match_unfold)
next
  case False
  then have "0 < length burp" by simp
  then have "100 \<le> fuzzy_delta (length burp) r \<longleftrightarrow> 100 * r < length burp" if "r \<le> length burp" for r
    using fuzzy_delta_le_100 [of "length burp" r] fuzzy_delta_eq_100_iff [of "length burp" r] assms that
    by linarith
  then show ?thesis by (simp add: match_unfold)
qed

text \<open>
  C31: the percentage Go computes in \<open>float64\<close> is the exact one or one more, and it is
  the exact one whenever the exact percentage \<open>100 \<cdot> remainder / origin\<close> is not an
  integer (for paths shorter than \<open>2^44\<close> bytes).
\<close>

theorem fuzzy_delta_float:
  assumes "0 < origin" and "remainder \<le> origin" and "origin < 2 ^ 44"
  shows "exact_delta origin remainder \<le> fuzzy_delta origin remainder \<and>
         fuzzy_delta origin remainder \<le> exact_delta origin remainder + 1 \<and>
         ((100 * remainder) mod origin \<noteq> 0 \<longrightarrow> fuzzy_delta origin remainder = exact_delta origin remainder)"
  using fuzzy_delta_exact [OF assms] by auto

text \<open>
  C32: the float rounding changes matching: whenever the observed path is \<open>100 n\<close> bytes
  long and a non-suffix occurrence of a \<open>71 n\<close>-byte template leaves \<open>29 n\<close> bytes,
  \<open>0.29 * 100\<close> is \<open>28.999999999999996\<close> in \<open>float64\<close>, so Go's delta is 72 where the
  exact one is 71, and the template matches at threshold 72.
\<close>

theorem match_float_rounding:
  assumes "sublist api burp" and "\<not> suffix api burp"
    and "length burp = 100 * n" and "length api = 71 * n" and "0 < n" and "n < 2 ^ 37"
  shows "fuzzy_delta (length burp) (length burp - length api) = 72 \<and>
         exact_delta (length burp) (length burp - length api) = 71 \<and> match 72 burp api"
proof -
  have r: "length burp - length api = 29 * n" using assms(3,4) by simp
  have "29 * n < 2 ^ 53" "100 * n < 2 ^ 53" using assms(6) by simp_all
  then have "f64_round (of_nat (29 * n)) = of_nat (29 * n)" "f64_round (of_nat (100 * n)) = of_nat (100 * n)"
    by (simp_all only: f64_round_nat)
  moreover have "(of_nat (29 * n) :: rat) / of_nat (100 * n) = 29 / 100" using assms(5) by simp
  ultimately have d: "fuzzy_delta (100 * n) (29 * n) = 72"
    using f64_twenty_nine assms(5) by (simp add: fuzzy_delta_def)
  have e: "exact_delta (100 * n) (29 * n) = 71"
  proof -
    have "(100 * (29 * n)) div (100 * n) = 29" using assms(5) by simp
    then show ?thesis by (simp add: exact_delta_def)
  qed
  from d e assms show ?thesis by (simp add: r match_unfold)
qed

text \<open>
  Above 100 only a suffix matches.
\<close>

lemma match_above_100:
  assumes "100 < fz"
  shows "match fz burp api \<longleftrightarrow> suffix api burp"
proof -
  have "\<not> fz \<le> fuzzy_delta (length burp) (length burp - length api)"
    using assms fuzzy_delta_le_100 [of "length burp" "length burp - length api"] by linarith
  then show ?thesis by (auto simp: match_unfold)
qed

text \<open>
  At a threshold of 1 or less every occurrence of the template matches: the
  percentage of the path a non-suffix occurrence accounts for is at least 1.
\<close>

lemma match_low_threshold:
  assumes "fz \<le> 1" and "length burp < 2 ^ 44"
  shows "match fz burp api \<longleftrightarrow> sublist api burp"
proof -
  have "fz \<le> fuzzy_delta (length burp) (length burp - length api)"
    if "sublist api burp" "\<not> suffix api burp"
  proof -
    from that have "api \<noteq> []" by auto
    with sublist_length_le [OF that(1)] have "length burp - length api < length burp"
      by (cases api) auto
    then show ?thesis using assms fuzzy_delta_ge_1 by fastforce
  qed
  then show ?thesis
    by (auto simp: match_unfold)
qed

text \<open>
  The default threshold does not restrict matching to suffixes: a template of 200
  bytes followed by one more byte in the observed path matches at threshold 100.
\<close>

lemma match_default_not_suffix_only:
  "match 100 ((CHR ''/'' # replicate 199 CHR ''a'') @ ''/'') (CHR ''/'' # replicate 199 CHR ''a'') \<and>
   \<not> suffix (CHR ''/'' # replicate 199 CHR ''a'') ((CHR ''/'' # replicate 199 CHR ''a'') @ ''/'')"
proof
  let ?api = "CHR ''/'' # replicate 199 CHR ''a''"
  show "\<not> suffix ?api (?api @ ''/'')"
  proof
    assume "suffix ?api (?api @ ''/'')"
    then obtain zs where "?api @ ''/'' = zs @ ?api" by (auto simp: suffix_def)
    then have "last (?api @ ''/'') = last (zs @ ?api)" by simp
    then show False by simp
  qed
  have "sublist ?api (?api @ ''/'')" by simp
  moreover have "fuzzy_delta 201 1 = 100" by code_simp
  ultimately show "match 100 (?api @ ''/'') ?api"
    by (simp add: match_unfold)
qed

section \<open>Witnesses\<close>

theorem match_suffix_witness:
  "suffix ''/api/x'' ''/gw/api/x'' \<and> match 100 ''/gw/api/x'' ''/api/x''"
proof -
  have h: "suffix ''/api/x'' ''/gw/api/x''"
    by (simp add: has_suffix_iff [symmetric] has_suffix_def)
  show ?thesis by (rule conjI [OF h match_suffix [OF h]])
qed

theorem match_requires_occurrence_witness:
  "\<not> sublist ''/api/y'' ''/gw/api/x'' \<and> \<not> match 0 ''/gw/api/x'' ''/api/y''"
proof -
  have h: "\<not> sublist ''/api/y'' ''/gw/api/x''"
    by (simp add: sublist_code)
  show ?thesis by (rule conjI [OF h match_requires_occurrence [OF h]])
qed

theorem match_threshold_mono_witness:
  "match 60 ''/api/x/y'' ''/api/x'' \<and> (50::int) \<le> 60 \<and> match 50 ''/api/x/y'' ''/api/x''"
proof -
  have h1: "match 60 ''/api/x/y'' ''/api/x''" by code_simp
  have h2: "(50::int) \<le> 60" by simp
  show ?thesis using h1 h2 match_threshold_mono [OF h1 h2] by blast
qed

theorem match_above_100_witness:
  "(100::int) < 101 \<and> \<not> match 101 ''/api/x/y'' ''/api/x''"
proof -
  have h: "(100::int) < 101" by simp
  have "\<not> suffix ''/api/x'' ''/api/x/y''"
    by (simp add: has_suffix_iff [symmetric] has_suffix_def)
  with match_above_100 [OF h] show ?thesis by simp
qed

theorem match_low_threshold_witness:
  "(1::int) \<le> 1 \<and> length ''/api/x/y/z/w'' < 2 ^ 44 \<and> match 1 ''/api/x/y/z/w'' ''/x''"
proof -
  have h: "(1::int) \<le> 1" "length ''/api/x/y/z/w'' < 2 ^ 44" by simp_all
  have "sublist ''/x'' ''/api/x/y/z/w''"
    by (simp add: sublist_code)
  with match_low_threshold [OF h] h show ?thesis by simp
qed


theorem find_path_none_witness:
  "\<not> (2 \<le> length ''/'' \<and> match 100 ''/a/b'' ''/'') \<and>
   \<not> (2 \<le> length ''/c'' \<and> match 100 ''/a/b'' ''/c'') \<and>
   find_path 100 ''/a/b'' [''/'', ''/c''] = (False, -1)"
proof -
  have h: "\<forall>p \<in> set [''/'', ''/c'']. \<not> (2 \<le> length p \<and> match 100 ''/a/b'' p)"
    by (simp add: match_def has_suffix_def)
  with find_path_none [of 100 "''/a/b''" "[''/'', ''/c'']"] show ?thesis by simp
qed

theorem match_at_100_witness:
  "length ''/api/x/'' < 2 ^ 44 \<and> sublist ''/api/x'' ''/api/x/'' \<and> \<not> match 100 ''/api/x/'' ''/api/x''"
proof -
  have l: "length ''/api/x/'' < 2 ^ 44" by simp
  have h: "sublist ''/api/x'' ''/api/x/''" by (simp add: sublist_code)
  have "\<not> suffix ''/api/x'' ''/api/x/''"
    by (simp add: has_suffix_iff [symmetric] has_suffix_def)
  with l h match_at_100 [OF l, of "''/api/x''"] show ?thesis by simp
qed

theorem match_float_rounding_witness:
  "fuzzy_delta 100 29 = 72 \<and> exact_delta 100 29 = 71 \<and>
   match 72 ((CHR ''/'' # replicate 70 CHR ''a'') @ CHR ''/'' # replicate 28 CHR ''b'')
            (CHR ''/'' # replicate 70 CHR ''a'')"
proof -
  let ?api = "CHR ''/'' # replicate 70 CHR ''a''"
  let ?burp = "?api @ CHR ''/'' # replicate 28 CHR ''b''"
  have h1: "sublist ?api ?burp" by simp
  have h2: "\<not> suffix ?api ?burp"
  proof
    assume "suffix ?api ?burp"
    then obtain zs where "?burp = zs @ ?api" by (auto simp: suffix_def)
    then have "last ?burp = last (zs @ ?api)" by simp
    then show False by simp
  qed
  have h3: "length ?burp = 100 * 1" "length ?api = 71 * 1" "(0::nat) < 1" "(1::nat) < 2 ^ 37" by simp_all
  from match_float_rounding [OF h1 h2 h3] show ?thesis by simp
qed

theorem fuzzy_delta_float_witness:
  "exact_delta 7 2 \<le> fuzzy_delta 7 2 \<and> fuzzy_delta 7 2 \<le> exact_delta 7 2 + 1 \<and>
   fuzzy_delta 7 2 = exact_delta 7 2"
proof -
  have h: "(0::nat) < 7" "(2::nat) \<le> 7" "(7::nat) < 2 ^ 44" by simp_all
  have "(100 * 2) mod (7::nat) \<noteq> 0" by simp
  with fuzzy_delta_float [OF h] show ?thesis by simp
qed
end
