(* ===== verification/Substitution.thy ===== *)
theory Substitution
  imports Prelude
begin

text \<open>
  TranslationComposer and SubstitutionEngine (correlator.go lines 325--437): the token
  replacers \<open>left2right\<close> and \<open>right2left\<close>, the map operations \<open>compose\<close> and
  \<open>flip\<close>, and \<open>substitute\<close>, which rewrites the path of a Burp item segment by segment
  and, unless \<open>-pathonly\<close> is set, its raw request or decoded body as one block.
  A Go map that a function ranges over is the list of its entries in visiting order; a map
  a function builds (\<open>out[k] = v\<close>) is built with \<open>AList.update\<close>, which overwrites in
  place, so its \<open>map_of\<close> is the Go map and its order is one of the orders a later range
  may visit.  One deviation: every call of \<open>left2right\<close> over the same table visits its
  entries in the list's order, while Go draws a fresh random order for each \<open>range from\<close>
  (line 343) and so may use different orders for different segments and items.  The
  orders give the same result unless the table's tokens overlap (one name occurs in another
  or in a value), which the specification rules out as ill-formed input; lemmas that depend
  on the order are stated for the list order only.  The item is the part of \<open>burpxml.Item\<close> the program reads and writes.
  \<open>url.Parse\<close> followed by \<open>EscapedPath\<close> is the parameter \<open>escaped_path\<close>:
  \<open>None\<close> where Go's parser returns an error.
\<close>

section \<open>Items\<close>

record request =
  raw :: string
  body :: string

record item =
  url :: string
  path :: string
  request :: request

section \<open>Token replacement\<close>

text \<open>
  \<open>left2right(from, part)\<close>: for each entry \<open>identifier \<mapsto> id\<close> in visiting order,
  every occurrence of the key is replaced by the value.
\<close>

definition left2right :: "(string, string) gomap \<Rightarrow> string \<Rightarrow> string" where
  "left2right from part = fold (\<lambda>(identifier, id) p. replace_all p identifier id) from part"

text \<open>\<open>flip(in)\<close>: \<open>out[value] = key\<close> for each entry, later entries overwriting.\<close>

definition flip :: "(string, string) gomap \<Rightarrow> (string, string) gomap" where
  "flip inp = fold (\<lambda>(key, value) out. AList.update value key out) inp []"

text \<open>\<open>right2left(to, part)\<close>: the same replacement over the flipped map.\<close>

definition right2left :: "(string, string) gomap \<Rightarrow> string \<Rightarrow> string" where
  "right2left to part = fold (\<lambda>(id, identifier) p. replace_all p id identifier) (flip to) part"

text \<open>
  \<open>compose(from, to)\<close>: for each entry \<open>fKey \<mapsto> fVal\<close> of \<open>from\<close> whose key \<open>to\<close>
  has, \<open>out[fVal] = to[fKey]\<close>.
\<close>

definition compose :: "(string, string) gomap \<Rightarrow> (string, string) gomap \<Rightarrow> (string, string) gomap" where
  "compose from to =
     fold (\<lambda>(fKey, fVal) out.
             case map_of to fKey of None \<Rightarrow> out | Some tVal \<Rightarrow> AList.update fVal tVal out)
          from []"

section \<open>Substitution over an item\<close>

text \<open>
  The path loop of \<open>substitute\<close>: \<open>after\<close> collects \<open>"/" + replace(tab, part)\<close> for
  every part of \<open>strings.Split(base, "/")\<close>, and \<open>after[1:]\<close> drops its first byte.
\<close>

definition rebuild_path :: "('m \<Rightarrow> string \<Rightarrow> string) \<Rightarrow> 'm \<Rightarrow> string \<Rightarrow> string" where
  "rebuild_path replace tab base =
     drop 1 (concat (map (\<lambda>part. CHR ''/'' # replace tab part) (go_split base CHR ''/'')))"

definition substitute ::
  "config \<Rightarrow> (string \<Rightarrow> string option) \<Rightarrow> ('m \<Rightarrow> string \<Rightarrow> string) \<Rightarrow> 'm \<Rightarrow> item \<Rightarrow> error + item"
where
  "substitute cfg escaped_path replace tab it =
     (case escaped_path (path it) of
        None \<Rightarrow> Inl (UrlParseFailed (path it))
      | Some base \<Rightarrow>
          let it' = it\<lparr>path := rebuild_path replace tab base\<rparr> in
          if skipBody cfg then Inr it'
          else if b64 cfg then
            Inr (it'\<lparr>request := (request it')\<lparr>body := replace tab (body (request it'))\<rparr>\<rparr>)
          else
            Inr (it'\<lparr>request := (request it')\<lparr>raw := replace tab (raw (request it'))\<rparr>\<rparr>))"

text \<open>
  A model of \<open>url.Parse(p).EscapedPath()\<close> for the request paths of a Burp capture: the
  part before the query or fragment.  It is exact for paths whose bytes are unreserved,
  sub-delimiters, \<open>:\<close>, \<open>@\<close>, \<open>/\<close> or valid percent escapes, where \<open>EscapedPath\<close>
  returns the raw path; the development's theorems hold for any \<open>escaped_path\<close>.
\<close>

definition plain_escaped_path :: "string \<Rightarrow> string option" where
  "plain_escaped_path p = Some (takeWhile (\<lambda>c. c \<noteq> CHR ''?'' \<and> c \<noteq> CHR ''#'') p)"

section \<open>Lemmas\<close>

subsection \<open>Rebuilding a path\<close>

lemma concat_sep_join:
  "ws \<noteq> [] \<Longrightarrow> concat (map (\<lambda>w. c # f w) ws) = c # join_on c (map f ws)"
proof (induction ws)
  case Nil
  then show ?case by simp
next
  case (Cons w ws)
  then show ?case by (cases ws) auto
qed

lemma rebuild_path_join:
  "rebuild_path replace tab base = join_on CHR ''/'' (map (replace tab) (go_split base CHR ''/''))"
  by (simp add: rebuild_path_def concat_sep_join)

lemma join_on_map_id:
  "(\<forall>w \<in> set ws. f w = w) \<Longrightarrow> join_on c (map f ws) = join_on c ws"
  by (simp add: map_idI)

subsection \<open>Token replacement\<close>

lemma left2right_Nil [simp]: "left2right [] part = part"
  by (simp add: left2right_def)

lemma left2right_Cons [simp]:
  "left2right ((k, v) # es) part = left2right es (replace_all part k v)"
  by (simp add: left2right_def)

lemma left2right_unchanged:
  "\<forall>(k, v) \<in> set es. k \<noteq> [] \<and> \<not> sublist k part \<Longrightarrow> left2right es part = part"
  by (induction es) (auto simp: replace_all_no_occ)

subsection \<open>Building maps\<close>

text \<open>
  The fold that builds a map with \<open>AList.update\<close>: the value stored under a key is the
  one written last.
\<close>

lemma map_of_fold_update:
  "map_of (fold (\<lambda>x out. case g x of None \<Rightarrow> out | Some (k, v) \<Rightarrow> AList.update k v out) xs out) key =
     (case filter (\<lambda>x. case g x of None \<Rightarrow> False | Some (k, v) \<Rightarrow> k = key) xs of
        [] \<Rightarrow> map_of out key
      | ys \<Rightarrow> map_option snd (g (last ys)))"
proof (induction xs arbitrary: out)
  case Nil
  then show ?case by simp
next
  case (Cons x xs)
  show ?case
  proof (cases "g x")
    case None
    with Cons.IH show ?thesis by simp
  next
    case (Some kv)
    obtain k v where kv: "kv = (k, v)" by (cases kv)
    have "map_of (AList.update k v out) = (map_of out)(k \<mapsto> v)"
      by (rule update_conv')
    with Cons.IH [of "AList.update k v out"] Some kv show ?thesis
      by (auto split: list.splits)
  qed
qed

lemma distinct_fold_update:
  "distinct (map fst out) \<Longrightarrow>
   distinct (map fst (fold (\<lambda>x out. case g x of None \<Rightarrow> out | Some (k, v) \<Rightarrow> AList.update k v out) xs out))"
  by (induction xs arbitrary: out) (auto simp: distinct_update split: option.splits)

lemma compose_fold_update:
  "compose from to =
     fold (\<lambda>x out. case (case map_of to (fst x) of None \<Rightarrow> None | Some t \<Rightarrow> Some (snd x, t)) of
                      None \<Rightarrow> out | Some (k, v) \<Rightarrow> AList.update k v out) from []"
proof -
  have "(\<lambda>(fKey, fVal) out. case map_of to fKey of None \<Rightarrow> out | Some tVal \<Rightarrow> AList.update fVal tVal out) =
        (\<lambda>x out. case (case map_of to (fst x) of None \<Rightarrow> None | Some t \<Rightarrow> Some (snd x, t)) of
                   None \<Rightarrow> out | Some (k, v) \<Rightarrow> AList.update k v out)"
    by (auto split: option.splits)
  then show ?thesis
    unfolding compose_def by (rule arg_cong [where f = "\<lambda>f. fold f from []"])
qed

lemma flip_fold_update:
  "flip inp = fold (\<lambda>x out. case Some (snd x, fst x) of None \<Rightarrow> out | Some (k, v) \<Rightarrow> AList.update k v out) inp []"
proof -
  have "(\<lambda>(key, value) out. AList.update value key out) =
        (\<lambda>x out. case Some (snd x, fst x) of None \<Rightarrow> out | Some (k, v) \<Rightarrow> AList.update k v out)"
    by auto
  then show ?thesis
    unfolding flip_def by (rule arg_cong [where f = "\<lambda>f. fold f inp []"])
qed

lemma distinct_snd_key_unique:
  "distinct (map snd es) \<Longrightarrow> (k, v) \<in> set es \<Longrightarrow> (k', v) \<in> set es \<Longrightarrow> k = k'"
  by (metis (no_types, lifting) distinct_map inj_on_def prod.inject snd_conv)

lemma sublist_join_on: "w \<in> set ws \<Longrightarrow> sublist w (join_on c ws)"
proof (induction c ws rule: join_on.induct)
  case (3 c w' v ws)
  show ?case
  proof (cases "w = w'")
    case True
    then show ?thesis by simp
  next
    case False
    with "3.prems" have "sublist w (join_on c (v # ws))" by (intro "3.IH") simp
    moreover have "sublist (join_on c (v # ws)) (w' @ c # join_on c (v # ws))"
      using sublist_append_leftI [of "join_on c (v # ws)" "w' @ [c]"] by simp
    ultimately show ?thesis by (simp add: sublist_order.order_trans)
  qed
qed simp_all

lemma go_split_segment_sublist: "w \<in> set (go_split s c) \<Longrightarrow> sublist w s"
  using sublist_join_on [of w "go_split s c" c] by (simp add: go_split_join)

lemma go_split_segment_no_slash:
  "w \<in> set (go_split base CHR ''/'') \<Longrightarrow> CHR ''/'' \<in> set k \<Longrightarrow> \<not> sublist k w"
  using go_split_no_sep [of w base "CHR ''/''"] set_mono_sublist by blast

section \<open>Properties of the composer\<close>

text \<open>
  C6: the composed table maps a source value to the destination value of the entry of
  \<open>from\<close>, among those with that value whose name \<open>to\<close> has, that the range visits
  last; a value no such entry has is absent.
\<close>

theorem compose_last_writer:
  "map_of (compose from to) v =
     (case filter (\<lambda>(k, fv). fv = v \<and> k \<in> fst ` set to) from of
        [] \<Rightarrow> None
      | ys \<Rightarrow> map_of to (fst (last ys)))"
proof -
  let ?g = "\<lambda>x. case map_of to (fst x) of None \<Rightarrow> None | Some t \<Rightarrow> Some (snd x, t)"
  let ?ys = "filter (\<lambda>(k, fv). fv = v \<and> k \<in> fst ` set to) from"
  have f: "filter (\<lambda>x. case ?g x of None \<Rightarrow> False | Some (k, w) \<Rightarrow> k = v) from = ?ys"
    by (rule filter_cong) (auto simp: fst_set_map_of_iff split: option.splits)
  show ?thesis
  proof (cases "?ys = []")
    case True
    then show ?thesis
      unfolding compose_fold_update map_of_fold_update f by simp
  next
    case False
    then have "last ?ys \<in> set ?ys" by (rule last_in_set)
    moreover obtain a b where ab: "last ?ys = (a, b)" by (cases "last ?ys")
    ultimately have "(a, b) \<in> set ?ys" by metis
    then have "a \<in> fst ` set to" by simp
    with ab have "fst (last ?ys) \<in> fst ` set to" by simp
    then have "map_of to (fst (last ?ys)) \<noteq> None" by (simp add: map_of_eq_None_iff)
    then have g: "map_option snd (?g (last ?ys)) = map_of to (fst (last ?ys))"
      by (auto split: option.splits)
    from False obtain y ys where yys: "?ys = y # ys" by (cases ?ys) auto
    from g have key: "map_option snd (?g (last (y # ys))) = map_of to (fst (last (y # ys)))"
      unfolding yys .
    show ?thesis
      unfolding compose_fold_update map_of_fold_update f yys list.case by (rule key)
  qed
qed

text \<open>
  C5: when no two names of \<open>from\<close> share a value, the composed table is the relational
  join of the two databases on their names.
\<close>

theorem compose_join:
  assumes "distinct (map snd from)"
  shows "map_of (compose from to) v = Some t \<longleftrightarrow> (\<exists>k. (k, v) \<in> set from \<and> map_of to k = Some t)"
proof -
  let ?ys = "filter (\<lambda>(k, fv). fv = v \<and> k \<in> fst ` set to) from"
  have all: "fst y = k" if "y \<in> set ?ys" "(k, v) \<in> set from" for y k
  proof -
    obtain a b where y: "y = (a, b)" by (cases y)
    have av: "(a, v) \<in> set from" using that(1) y by auto
    have "a = k" using distinct_snd_key_unique [OF assms av that(2)] .
    with y show ?thesis by simp
  qed
  show ?thesis
  proof
    assume "map_of (compose from to) v = Some t"
    then have ne: "?ys \<noteq> []" and t: "map_of to (fst (last ?ys)) = Some t"
      by (auto simp: compose_last_writer split: list.splits)
    from ne have "last ?ys \<in> set ?ys" by (rule last_in_set)
    with t show "\<exists>k. (k, v) \<in> set from \<and> map_of to k = Some t"
      by (cases "last ?ys") auto
  next
    assume "\<exists>k. (k, v) \<in> set from \<and> map_of to k = Some t"
    then obtain k where k: "(k, v) \<in> set from" "map_of to k = Some t" by blast
    moreover from k have "k \<in> fst ` set to" by (auto simp: fst_set_map_of_iff)
    ultimately have "(k, v) \<in> set ?ys" by simp
    then have ne: "?ys \<noteq> []" by (metis empty_iff list.set(1))
    then have "last ?ys \<in> set ?ys" by (rule last_in_set)
    with all k have "fst (last ?ys) = k" by blast
    with ne k show "map_of (compose from to) v = Some t"
      by (auto simp: compose_last_writer split: list.splits)
  qed
qed

text \<open>
  C33: when no two names of \<open>from\<close> share a value, the order in which \<open>range from\<close>
  visits the entries does not change the composed table.
\<close>

theorem compose_order_independent:
  assumes "mset from' = mset from" and "distinct (map snd from)"
  shows "map_of (compose from' to) = map_of (compose from to)"
proof
  fix v
  have d': "distinct (map snd from')"
    using assms by (metis mset_eq_imp_distinct_iff mset_map)
  have s: "set from' = set from"
    using assms(1) by (metis set_mset_mset)
  show "map_of (compose from' to) v = map_of (compose from to) v"
  proof (cases "map_of (compose from to) v")
    case None
    then have "\<not> (\<exists>k. (k, v) \<in> set from \<and> map_of to k = Some t)" for t
      using compose_join [OF assms(2), of to v t] by simp
    then have "map_of (compose from' to) v \<noteq> Some t" for t
      using compose_join [OF d', of to v t] s by simp
    with None show ?thesis by (cases "map_of (compose from' to) v") auto
  next
    case (Some t)
    then have "\<exists>k. (k, v) \<in> set from \<and> map_of to k = Some t"
      using compose_join [OF assms(2), of to v t] by simp
    then have "map_of (compose from' to) v = Some t"
      using compose_join [OF d', of to v t] s by simp
    with Some show ?thesis by simp
  qed
qed

text \<open>
  when two names of \<open>from\<close> share a value, the composed table depends on the
  order of the range: the same two databases give different tables for the two orders.
\<close>

lemma compose_order_dependent:
  "map_of (compose [(''a'', ''x''), (''b'', ''x'')] [(''a'', ''1''), (''b'', ''2'')]) ''x'' = Some ''2'' \<and>
   map_of (compose [(''b'', ''x''), (''a'', ''x'')] [(''a'', ''1''), (''b'', ''2'')]) ''x'' = Some ''1''"
  by (simp add: compose_def)

text \<open>
  The composed table is a well-formed map: its keys are distinct, whatever the two
  databases.
\<close>

lemma compose_well_formed: "gomap_ok (compose from to)"
  unfolding gomap_ok_def compose_fold_update by (rule distinct_fold_update) simp

section \<open>Properties of path and item substitution\<close>

text \<open>
  C18: path substitution is segment-local: when no replacement introduces a \<open>/\<close>, the
  rebuilt path has exactly the segments of the escaped path, each replaced on its own.
\<close>

theorem rebuild_path_segments:
  assumes "\<forall>w \<in> set (go_split base CHR ''/''). CHR ''/'' \<notin> set (replace tab w)"
  shows "go_split (rebuild_path replace tab base) CHR ''/'' = map (replace tab) (go_split base CHR ''/'')"
proof -
  have "map (replace tab) (go_split base CHR ''/'') \<noteq> []" by simp
  moreover have "\<forall>w \<in> set (map (replace tab) (go_split base CHR ''/'')). CHR ''/'' \<notin> set w"
    using assms by auto
  ultimately show ?thesis by (simp add: rebuild_path_join go_split_unique)
qed

text \<open>
  C10: rebuilding a path whose segments the replacement leaves alone gives back the
  escaped path: \<open>after[1:]\<close> drops exactly the duplicated leading separator.
\<close>

theorem rebuild_path_roundtrip:
  assumes "\<forall>w \<in> set (go_split base CHR ''/''). replace tab w = w"
  shows "rebuild_path replace tab base = base"
  using assms by (simp add: rebuild_path_join join_on_map_id go_split_join)

text \<open>
  A table entry whose key contains \<open>/\<close> never changes a path: the replacement
  never matches across a separator.
\<close>

lemma left2right_never_crosses_slash:
  assumes "\<forall>(k, v) \<in> set tab. CHR ''/'' \<in> set k"
  shows "rebuild_path left2right tab base = base"
proof -
  have "left2right tab w = w" if "w \<in> set (go_split base CHR ''/'')" for w
  proof (rule left2right_unchanged)
    show "\<forall>(k, v) \<in> set tab. k \<noteq> [] \<and> \<not> sublist k w"
      using assms go_split_segment_no_slash [OF that] by fastforce
  qed
  then show ?thesis by (simp add: rebuild_path_join join_on_map_id go_split_join)
qed

text \<open>
  C19: \<open>substitute\<close> succeeds when the path parses; it rewrites the path segment by
  segment, leaves the URL alone, and rewrites exactly the request field the mode selects:
  none with \<open>-pathonly\<close>, the decoded body with \<open>-b64\<close>, the raw request otherwise.
\<close>

theorem substitute_fields:
  assumes "escaped_path (path it) = Some base"
  shows "\<exists>it'. substitute cfg escaped_path replace tab it = Inr it' \<and>
     url it' = url it \<and>
     path it' = join_on CHR ''/'' (map (replace tab) (go_split base CHR ''/'')) \<and>
     raw (request it') =
       (if \<not> skipBody cfg \<and> \<not> b64 cfg then replace tab (raw (request it)) else raw (request it)) \<and>
     body (request it') =
       (if \<not> skipBody cfg \<and> b64 cfg then replace tab (body (request it)) else body (request it))"
  using assms by (auto simp: substitute_def rebuild_path_join Let_def)

text \<open>
  \<open>substitute\<close> fails exactly when the URL parser rejects the item's path, with
  the fatal error naming that path.
\<close>

lemma substitute_error:
  "substitute cfg escaped_path replace tab it = Inl e \<longleftrightarrow>
     escaped_path (path it) = None \<and> e = UrlParseFailed (path it)"
  by (auto simp: substitute_def Let_def split: option.splits)

text \<open>
  a name whose source value is empty puts an empty key in the composed table, and
  \<open>ReplaceAll\<close> with an empty key inserts the destination value around every byte of
  every segment.
\<close>

lemma empty_value_corrupts_path:
  "compose [(''id'', [])] [(''id'', ''X'')] = [([], ''X'')] \<and>
   rebuild_path left2right [([], ''X'')] ''/a'' = ''X/XaX''"
  by (simp add: compose_def rebuild_path_def replace_all_Nil_old)

section \<open>Witnesses\<close>

theorem compose_join_witness:
  "distinct (map snd [(''id'', ''v1'')]) \<and>
   map_of (compose [(''id'', ''v1'')] [(''id'', ''v2'')]) ''v1'' = Some ''v2'' \<and>
   compose [(''id'', ''v1'')] [] = []"
proof -
  have h: "distinct (map snd [(''id'', ''v1'')])" by simp
  have "\<exists>k. (k, ''v1'') \<in> set [(''id'', ''v1'')] \<and> map_of [(''id'', ''v2'')] k = Some ''v2''"
    by auto
  with compose_join [OF h] have "map_of (compose [(''id'', ''v1'')] [(''id'', ''v2'')]) ''v1'' = Some ''v2''"
    by blast
  with h show ?thesis by (simp add: compose_def)
qed

theorem compose_order_independent_witness:
  "mset [(''b'', ''y''), (''a'', ''x'')] = mset [(''a'', ''x''), (''b'', ''y'')] \<and>
   distinct (map snd [(''a'', ''x''), (''b'', ''y'')]) \<and>
   map_of (compose [(''b'', ''y''), (''a'', ''x'')] [(''a'', ''1'')]) =
     map_of (compose [(''a'', ''x''), (''b'', ''y'')] [(''a'', ''1'')])"
proof -
  have h1: "mset [(''b'', ''y''), (''a'', ''x'')] = mset [(''a'', ''x''), (''b'', ''y'')]" by simp
  have h2: "distinct (map snd [(''a'', ''x''), (''b'', ''y'')])" by simp
  show ?thesis using h1 h2 compose_order_independent [OF h1 h2] by blast
qed

theorem rebuild_path_segments_witness:
  "go_split (rebuild_path left2right [(''v1'', ''{id}'')] ''/a/xv1y/b'') CHR ''/'' = ['''', ''a'', ''x{id}y'', ''b''] \<and>
   rebuild_path left2right [(''v1'', ''{id}'')] ''/a/v1/b'' = ''/a/{id}/b''"
proof -
  have h: "\<forall>w \<in> set (go_split ''/a/xv1y/b'' CHR ''/''). CHR ''/'' \<notin> set (left2right [(''v1'', ''{id}'')] w)"
    by (simp add: replace_all_Cons replace_all_Nil has_prefix_def)
  have "map (left2right [(''v1'', ''{id}'')]) (go_split ''/a/xv1y/b'' CHR ''/'') = ['''', ''a'', ''x{id}y'', ''b'']"
    by (simp add: replace_all_Cons replace_all_Nil has_prefix_def)
  with rebuild_path_segments [where replace = left2right and tab = "[(''v1'', ''{id}'')]", OF h] show ?thesis
    by (simp add: rebuild_path_def replace_all_Cons replace_all_Nil has_prefix_def)
qed

theorem rebuild_path_roundtrip_witness:
  "rebuild_path left2right [] ''/a/b/c'' = ''/a/b/c''"
proof -
  have h: "\<forall>w \<in> set (go_split ''/a/b/c'' CHR ''/''). left2right [] w = w" by simp
  show ?thesis by (rule rebuild_path_roundtrip [where replace = left2right and tab = "[]", OF h])
qed

theorem left2right_never_crosses_slash_witness:
  "rebuild_path left2right [(''a/b'', ''X'')] ''/a/b'' = ''/a/b''"
proof -
  have h: "\<forall>(k, v) \<in> set [(''a/b'', ''X'')]. CHR ''/'' \<in> set k" by simp
  show ?thesis by (rule left2right_never_crosses_slash [OF h])
qed

theorem substitute_fields_witness:
  "substitute (default_config\<lparr>b64 := True\<rparr>) plain_escaped_path left2right [(''v1'', ''v2'')]
     \<lparr>url = ''u'', path = ''/a/v1?q=v1'', request = \<lparr>raw = ''r v1'', body = ''b v1''\<rparr>\<rparr> =
   Inr \<lparr>url = ''u'', path = ''/a/v2'', request = \<lparr>raw = ''r v1'', body = ''b v2''\<rparr>\<rparr>"
proof -
  let ?it = "\<lparr>url = ''u'', path = ''/a/v1?q=v1'', request = \<lparr>raw = ''r v1'', body = ''b v1''\<rparr>\<rparr>"
  have h: "plain_escaped_path (path ?it) = Some ''/a/v1''"
    by (simp add: plain_escaped_path_def)
  from substitute_fields [where escaped_path = plain_escaped_path and cfg = "default_config\<lparr>b64 := True\<rparr>" and replace = left2right and tab = "[(''v1'', ''v2'')]", OF h]
  obtain it' where
    r: "substitute (default_config\<lparr>b64 := True\<rparr>) plain_escaped_path left2right [(''v1'', ''v2'')] ?it = Inr it'"
    and f: "url it' = ''u''"
      "path it' = join_on CHR ''/'' (map (left2right [(''v1'', ''v2'')]) (go_split ''/a/v1'' CHR ''/''))"
      "raw (request it') = ''r v1''"
      "body (request it') = left2right [(''v1'', ''v2'')] ''b v1''"
    by (auto simp: default_config_def)
  have "it' = \<lparr>url = url it', path = path it', request = \<lparr>raw = raw (request it'), body = body (request it')\<rparr>\<rparr>"
    by simp
  also have "\<dots> = \<lparr>url = ''u'', path = ''/a/v2'', request = \<lparr>raw = ''r v1'', body = ''b v2''\<rparr>\<rparr>"
    using f by (simp add: replace_all_Cons replace_all_Nil has_prefix_def)
  finally show ?thesis using r by simp
qed

theorem substitute_error_witness:
  "substitute default_config (\<lambda>_. None) left2right [] \<lparr>url = ''u'', path = ''/%zz'', request = \<lparr>raw = [], body = []\<rparr>\<rparr> =
     Inl (UrlParseFailed ''/%zz'')"
  using substitute_error [of default_config "\<lambda>_. None" left2right "[]"
      "\<lparr>url = ''u'', path = ''/%zz'', request = \<lparr>raw = [], body = []\<rparr>\<rparr>" "UrlParseFailed ''/%zz''"]
  by simp

end
