(* ===== verification/Headers.thy ===== *)
theory Headers
  imports Prelude
begin

text \<open>
  HeaderRewriter (correlator.go lines 238--291): \<open>subLine\<close> replaces every line that
  starts with a header prefix by \<open>prefix + " " + value\<close>, and \<open>stripLines\<close> removes
  the lines that start with one of several pfxs.  Both split the text with
  \<open>strings.Split(body, "\n")\<close> and reassemble it with a newline after every line.
  \<open>stripLines\<close> collects the indices to cut in ascending order and then cuts them one
  after the other from the shrinking slice with \<open>append(lines[:i], lines[i+1:]...)\<close>;
  the slice expression \<open>lines[i+1:]\<close> panics when \<open>i + 1\<close> exceeds the current
  length, which the model returns as \<open>Inl (SliceOutOfRange (i + 1) (length lines))\<close>.
  The source's parameters \<open>prefix\<close> and \<open>prefixes\<close> are named \<open>pfx\<close> and
  \<open>pfxs\<close> here, since HOL-Library.Sublist defines constants of those names.
\<close>

section \<open>Definitions\<close>

abbreviation nl :: char where
  "nl \<equiv> CHR 0x0A"

text \<open>The loop \<open>for _, line := range lines { out += line; out += "\n" }\<close>.\<close>

definition join_lines :: "string list \<Rightarrow> string" where
  "join_lines lines = concat (map (\<lambda>line. line @ [nl]) lines)"

definition subLine :: "string \<Rightarrow> string \<Rightarrow> string \<Rightarrow> string" where
  "subLine body pfx value =
     join_lines
       (map (\<lambda>line. if has_prefix line pfx then pfx @ CHR '' '' # value else line)
            (go_split body nl))"

text \<open>
  The collection loop of \<open>stripLines\<close>: index \<open>i\<close> is appended once for every prefix
  line \<open>i\<close> starts with, lines in order, pfxs in order.
\<close>

definition cut_indices :: "string list \<Rightarrow> string list \<Rightarrow> nat list" where
  "cut_indices lines pfxs =
     concat (map (\<lambda>(i, line). concat (map (\<lambda>pfx. if has_prefix line pfx then [i] else []) pfxs))
                 (enumerate 0 lines))"

text \<open>The cutting loop: \<open>lines = append(lines[:i], lines[i+1:]...)\<close> for each index.\<close>

fun cut_lines :: "nat list \<Rightarrow> string list \<Rightarrow> error + string list" where
  "cut_lines [] lines = Inr lines"
| "cut_lines (i # is) lines =
     (if i + 1 \<le> length lines then cut_lines is (take i lines @ drop (i + 1) lines)
      else Inl (SliceOutOfRange (i + 1) (length lines)))"

definition stripLines :: "string \<Rightarrow> string list \<Rightarrow> error + string" where
  "stripLines body pfxs =
     (let lines = go_split body nl in
      case cut_lines (cut_indices lines pfxs) lines of
        Inl e \<Rightarrow> Inl e
      | Inr lines' \<Rightarrow> Inr (join_lines lines'))"

text \<open>
  Reference: the lines that start with none of the pfxs, in order, each followed by a
  newline (what the spec's \<open>StripLines\<close> promises).
\<close>

definition strip_reference :: "string \<Rightarrow> string list \<Rightarrow> string" where
  "strip_reference body pfxs =
     join_lines (filter (\<lambda>line. \<not> (\<exists>pfx \<in> set pfxs. has_prefix line pfx)) (go_split body nl))"

section \<open>Lemmas\<close>

lemma join_lines_join_on: "join_lines ls = join_on nl (ls @ [[]])"
proof (induction ls)
  case Nil
  then show ?case by (simp add: join_lines_def)
next
  case (Cons l ls)
  then show ?case by (cases "ls @ [[]]") (auto simp: join_lines_def)
qed

lemma join_on_snoc_Nil: "xs \<noteq> [] \<Longrightarrow> join_on c (xs @ [[]]) = join_on c xs @ [c]"
proof (induction xs rule: join_on.induct)
  case (1 c)
  then show ?case by simp
next
  case (2 c w)
  then show ?case by simp
next
  case (3 c w v ws)
  then show ?case by simp
qed

lemma join_lines_go_split: "join_lines (go_split s nl) = s @ [nl]"
  by (simp add: join_lines_join_on join_on_snoc_Nil go_split_join)

lemma go_split_join_lines:
  "\<forall>l \<in> set ls. nl \<notin> set l \<Longrightarrow> go_split (join_lines ls) nl = ls @ [[]]"
  by (simp add: join_lines_join_on go_split_unique)

lemma go_split_lines_no_nl: "l \<in> set (go_split s nl) \<Longrightarrow> nl \<notin> set l"
  by (rule go_split_no_sep)

lemma set_cut_group:
  "set (concat (map (\<lambda>p. if has_prefix line p then [i] else []) pfxs)) =
     (if \<exists>p \<in> set pfxs. has_prefix line p then {i} else {})"
  by (induction pfxs) auto

lemma set_cut_indices:
  "set (cut_indices lines pfxs) = {i. i < length lines \<and> (\<exists>p \<in> set pfxs. has_prefix (lines ! i) p)}"
proof -
  have "x \<in> set (cut_indices lines pfxs) \<longleftrightarrow>
      (\<exists>(i, line) \<in> set (enumerate 0 lines). x = i \<and> (\<exists>p \<in> set pfxs. has_prefix line p))" for x
    unfolding cut_indices_def by (force simp: set_cut_group split: if_splits)
  also have "\<dots> x \<longleftrightarrow> x < length lines \<and> (\<exists>p \<in> set pfxs. has_prefix (lines ! x) p)" for x
    by (force simp: in_set_enumerate_eq)
  finally show ?thesis by blast
qed

lemma filter_only_nth:
  "i < length xs \<Longrightarrow> \<forall>j < length xs. Q (xs ! j) \<longleftrightarrow> j \<noteq> i \<Longrightarrow>
   filter Q xs = take i xs @ drop (Suc i) xs"
proof (induction xs arbitrary: i)
  case Nil
  then show ?case by simp
next
  case (Cons x xs)
  show ?case
  proof (cases i)
    case 0
    with Cons.prems have nq: "\<not> Q x" by auto
    have "Q (xs ! j)" if "j < length xs" for j
      using Cons.prems(2) 0 that by (metis Suc_less_eq length_Cons nat.distinct(1) nth_Cons_Suc)
    then have "filter Q xs = xs" by (auto simp: filter_id_conv in_set_conv_nth)
    with 0 nq show ?thesis by simp
  next
    case (Suc i')
    from Cons.prems Suc have q: "Q x" by (metis length_Cons nat.distinct(1) nth_Cons_0 zero_less_Suc)
    from Cons.prems Suc have "i' < length xs" by simp
    moreover have "\<forall>j < length xs. Q (xs ! j) \<longleftrightarrow> j \<noteq> i'"
      using Cons.prems(2) Suc by (metis Suc_less_eq length_Cons nat.inject nth_Cons_Suc)
    ultimately have "filter Q xs = take i' xs @ drop (Suc i') xs" by (rule Cons.IH)
    with Suc q show ?thesis by simp
  qed
qed

lemma subLine_split:
  assumes "nl \<notin> set value"
  shows "go_split (subLine body pfx value) nl =
    map (\<lambda>line. if has_prefix line pfx then pfx @ CHR '' '' # value else line) (go_split body nl) @ [[]]"
proof -
  have "nl \<notin> set l"
    if "l \<in> set (map (\<lambda>line. if has_prefix line pfx then pfx @ CHR '' '' # value else line) (go_split body nl))"
    for l
  proof -
    from that obtain line where line: "line \<in> set (go_split body nl)"
      and l: "l = (if has_prefix line pfx then pfx @ CHR '' '' # value else line)"
      by auto
    from line have nol: "nl \<notin> set line" by (rule go_split_lines_no_nl)
    show ?thesis
    proof (cases "has_prefix line pfx")
      case True
      then have "set pfx \<subseteq> set line" by (auto simp: has_prefix_iff set_mono_prefix)
      with nol l True assms show ?thesis by auto
    next
      case False
      with nol l show ?thesis by simp
    qed
  qed
  then show ?thesis by (simp add: subLine_def go_split_join_lines)
qed

section \<open>Properties of the header rewriter\<close>

text \<open>
  C11: when the new value holds no newline, the lines of \<open>subLine\<close>'s result are the
  input's lines with every line that starts with the prefix replaced by
  \<open>prefix + " " + value\<close>, followed by one empty line: the text always ends with a newline.
\<close>

theorem subLine_lines:
  assumes "nl \<notin> set value"
  shows "go_split (subLine body pfx value) nl =
    map (\<lambda>line. if has_prefix line pfx then pfx @ CHR '' '' # value else line) (go_split body nl) @ [[]]"
  using assms by (rule subLine_split)

text \<open>
  When no line starts with the prefix, \<open>subLine\<close> returns the text with one newline
  appended, also when the text already ends with one.
\<close>

lemma subLine_no_match:
  assumes "\<forall>line \<in> set (go_split body nl). \<not> has_prefix line pfx"
  shows "subLine body pfx value = body @ [nl]"
proof -
  have "map (\<lambda>line. if has_prefix line pfx then pfx @ CHR '' '' # value else line) (go_split body nl) =
      go_split body nl"
    using assms by (simp add: map_idI)
  then show ?thesis by (simp add: subLine_def join_lines_go_split)
qed

text \<open>
  \<open>subLine\<close> is not idempotent: applying it again with the same non-empty prefix and a
  value without newline gives the same text with one more newline.
\<close>

lemma subLine_twice:
  assumes "pfx \<noteq> []" and "nl \<notin> set value"
  shows "subLine (subLine body pfx value) pfx value = subLine body pfx value @ [nl]"
proof -
  let ?f = "\<lambda>line. if has_prefix line pfx then pfx @ CHR '' '' # value else line"
  let ?L = "map ?f (go_split body nl)"
  have lines: "\<forall>l \<in> set ?L. nl \<notin> set l"
  proof
    fix l assume "l \<in> set ?L"
    then obtain line where line: "line \<in> set (go_split body nl)" and l: "l = ?f line" by auto
    from line have nol: "nl \<notin> set line" by (rule go_split_lines_no_nl)
    show "nl \<notin> set l"
    proof (cases "has_prefix line pfx")
      case True
      then have "set pfx \<subseteq> set line" by (auto simp: has_prefix_iff set_mono_prefix)
      with nol l True assms(2) show ?thesis by auto
    next
      case False
      with nol l show ?thesis by simp
    qed
  qed
  have idem: "map ?f ?L = ?L" by (auto simp: has_prefix_def)
  have nil: "?f [] = []" using assms(1) by (simp add: has_prefix_def)
  have m: "map ?f (?L @ [[]]) = ?L @ [[]]"
    by (simp only: map_append list.map idem nil)
  have "subLine (subLine body pfx value) pfx value = join_lines (map ?f (?L @ [[]]))"
    using lines by (simp add: subLine_def [of "join_lines ?L"] go_split_join_lines subLine_def [of body])
  also have "\<dots> = join_lines (?L @ [[]])" by (simp only: m)
  also have "\<dots> = subLine body pfx value @ [nl]" by (simp add: subLine_def join_lines_def)
  finally show ?thesis .
qed

text \<open>
  A header line terminated by CR LF loses its CR when \<open>subLine\<close> rewrites it,
  while the other lines keep theirs.
\<close>

lemma subLine_drops_cr:
  "subLine (''Authorization: old'' @ [CHR 0x0D, nl] @ ''Host: a'' @ [CHR 0x0D, nl]) ''Authorization:'' ''new'' =
     ''Authorization: new'' @ [nl] @ ''Host: a'' @ [CHR 0x0D, nl, nl]"
  by (simp add: subLine_def join_lines_def has_prefix_def)

text \<open>
  C12: when at most one line starts with one of the prefixes, and with only one of them,
  \<open>stripLines\<close> removes exactly the lines that start with a prefix.
\<close>

theorem stripLines_single:
  assumes "length (cut_indices (go_split body nl) pfxs) \<le> 1"
  shows "stripLines body pfxs = Inr (strip_reference body pfxs)"
proof (cases "cut_indices (go_split body nl) pfxs")
  case Nil
  then have "\<forall>j < length (go_split body nl). \<not> (\<exists>p \<in> set pfxs. has_prefix (go_split body nl ! j) p)"
    using set_cut_indices [of "go_split body nl" pfxs] by auto
  then have "\<forall>line \<in> set (go_split body nl). \<not> (\<exists>p \<in> set pfxs. has_prefix line p)"
    by (metis in_set_conv_nth)
  then have "filter (\<lambda>line. \<not> (\<exists>p \<in> set pfxs. has_prefix line p)) (go_split body nl) = go_split body nl"
    by (simp add: filter_id_conv)
  with Nil show ?thesis by (simp add: stripLines_def strip_reference_def)
next
  case (Cons i rest)
  with assms have ci: "cut_indices (go_split body nl) pfxs = [i]" by simp
  let ?ls = "go_split body nl"
  from ci set_cut_indices [of ?ls pfxs]
  have set: "{j. j < length ?ls \<and> (\<exists>p \<in> set pfxs. has_prefix (?ls ! j) p)} = {i}" by simp
  then have i: "i < length ?ls" by blast
  have "\<forall>j < length ?ls. (\<not> (\<exists>p \<in> set pfxs. has_prefix (?ls ! j) p)) \<longleftrightarrow> j \<noteq> i"
    using set by blast
  with i have "filter (\<lambda>line. \<not> (\<exists>p \<in> set pfxs. has_prefix line p)) ?ls = take i ?ls @ drop (Suc i) ?ls"
    by (rule filter_only_nth)
  with ci i show ?thesis by (simp add: stripLines_def strip_reference_def Let_def)
qed

text \<open>
  C36: when exactly two lines \<open>i < j\<close> start with a prefix, \<open>stripLines\<close> cuts line
  \<open>i\<close> and then, the slice having shifted, the line after \<open>j\<close>: the header at \<open>j\<close> is kept
  and the line \<open>j + 1\<close> is lost; when \<open>j\<close> is the last line the second cut is out of range
  and panics.
\<close>

theorem stripLines_two_cuts:
  assumes "cut_indices (go_split body nl) pfxs = [i, j]" and "i < j"
  shows "stripLines body pfxs =
    (if Suc j < length (go_split body nl)
     then Inr (join_lines (take i (go_split body nl) @ take (j - i) (drop (Suc i) (go_split body nl)) @
                           drop (Suc (Suc j)) (go_split body nl)))
     else Inl (SliceOutOfRange (Suc j) j))"
proof -
  let ?ls = "go_split body nl"
  have "j \<in> set (cut_indices ?ls pfxs)" using assms(1) by simp
  then have j: "j < length ?ls" by (simp add: set_cut_indices)
  with assms(2) have i: "i < length ?ls" by simp
  let ?l1 = "take i ?ls @ drop (Suc i) ?ls"
  have len1: "length ?l1 = length ?ls - 1" using i by simp
  have take1: "take j ?l1 = take i ?ls @ take (j - i) (drop (Suc i) ?ls)"
    using i assms(2) by (simp add: min_def)
  have drop1: "drop (Suc j) ?l1 = drop (Suc (Suc j)) ?ls"
    using i assms(2) by (simp add: min_def)
  show ?thesis
  proof (cases "Suc j < length ?ls")
    case True
    then have "j + 1 \<le> length ?l1" using len1 by simp
    with i assms(1) True take1 drop1 show ?thesis by (simp add: stripLines_def Let_def)
  next
    case False
    with j have "length ?l1 = j" using len1 by simp
    with i assms(1) False show ?thesis by (simp add: stripLines_def Let_def)
  qed
qed

text \<open>
  With a trailing newline the same request is not stripped as specified: the
  second cut removes the final empty line instead of the \<open>Cookie:\<close> header.
\<close>

lemma stripLines_example_wrong_line:
  "stripLines (''GET / HTTP/1.1'' @ [nl] @ ''Authorization: Bearer x'' @ [nl] @ ''Host: a'' @ [nl] @ ''Cookie: y'' @ [nl])
     [''Authorization:'', ''Cookie:''] =
     Inr (''GET / HTTP/1.1'' @ [nl] @ ''Host: a'' @ [nl] @ ''Cookie: y'' @ [nl]) \<and>
   strip_reference (''GET / HTTP/1.1'' @ [nl] @ ''Authorization: Bearer x'' @ [nl] @ ''Host: a'' @ [nl] @ ''Cookie: y'' @ [nl])
     [''Authorization:'', ''Cookie:''] = ''GET / HTTP/1.1'' @ [nl] @ ''Host: a'' @ [nl, nl]"
  by (simp add: stripLines_def strip_reference_def cut_indices_def has_prefix_def join_lines_def)

section \<open>Witnesses\<close>

theorem subLine_lines_witness:
  "go_split (subLine ''a'' ''a'' ''X'') nl = [''a X'', '''']"
proof -
  have h: "nl \<notin> set ''X''" by simp
  from subLine_lines [OF h, of "''a''" "''a''"] show ?thesis by (simp add: has_prefix_def)
qed

theorem subLine_no_match_witness:
  "subLine (''Host: a'' @ [nl]) ''Authorization:'' ''X'' = ''Host: a'' @ [nl, nl]"
proof -
  have h: "\<forall>line \<in> set (go_split (''Host: a'' @ [nl]) nl). \<not> has_prefix line ''Authorization:''"
    by (simp add: has_prefix_def)
  from subLine_no_match [OF h, of "''X''"] show ?thesis by simp
qed

theorem subLine_twice_witness:
  "subLine (subLine ''Cookie: c'' ''Cookie:'' ''d'') ''Cookie:'' ''d'' = ''Cookie: d'' @ [nl, nl]"
proof -
  have h1: "''Cookie:'' \<noteq> []" by simp
  have h2: "nl \<notin> set ''d''" by simp
  have "subLine ''Cookie: c'' ''Cookie:'' ''d'' = ''Cookie: d'' @ [nl]"
    by (simp add: subLine_def join_lines_def has_prefix_def)
  with subLine_twice [OF h1 h2, of "''Cookie: c''"] show ?thesis by simp
qed

theorem stripLines_single_witness:
  "stripLines (''GET /'' @ [nl] @ ''Cookie: y'') [''Authorization:'', ''Cookie:''] = Inr (''GET /'' @ [nl])"
proof -
  have h: "length (cut_indices (go_split (''GET /'' @ [nl] @ ''Cookie: y'') nl) [''Authorization:'', ''Cookie:'']) \<le> 1"
    by (simp add: cut_indices_def has_prefix_def)
  from stripLines_single [OF h] show ?thesis
    by (simp add: strip_reference_def join_lines_def has_prefix_def)
qed


theorem stripLines_two_cuts_witness:
  "stripLines (''GET / HTTP/1.1'' @ [nl] @ ''Authorization: Bearer x'' @ [nl] @ ''Host: a'' @ [nl] @ ''Cookie: y'')
     [''Authorization:'', ''Cookie:''] = Inl (SliceOutOfRange 4 3) \<and>
   stripLines (''GET / HTTP/1.1'' @ [nl] @ ''Authorization: Bearer x'' @ [nl] @ ''Host: a'' @ [nl] @ ''Cookie: y'' @ [nl])
     [''Authorization:'', ''Cookie:''] = Inr (''GET / HTTP/1.1'' @ [nl] @ ''Host: a'' @ [nl] @ ''Cookie: y'' @ [nl])"
proof -
  let ?b1 = "''GET / HTTP/1.1'' @ [nl] @ ''Authorization: Bearer x'' @ [nl] @ ''Host: a'' @ [nl] @ ''Cookie: y''"
  let ?b2 = "?b1 @ [nl]"
  let ?p = "[''Authorization:'', ''Cookie:'']"
  have h1: "cut_indices (go_split ?b1 nl) ?p = [1, 3]" "(1::nat) < 3"
    by (simp_all add: cut_indices_def has_prefix_def)
  have h2: "cut_indices (go_split ?b2 nl) ?p = [1, 3]"
    by (simp add: cut_indices_def has_prefix_def)
  from stripLines_two_cuts [OF h1] stripLines_two_cuts [OF h2 h1(2)] show ?thesis
    by (simp add: join_lines_def)
qed

end
