(* ===== verification/KVLoader.thy ===== *)
theory KVLoader
  imports Headers
begin

text \<open>
  KVLoader and \<open>ingestDb\<close> (correlator.go lines 395--409).  \<open>ingestDb\<close> opens the
  database file, loads it with the external \<open>cfg\<close> library and returns
  \<open>db.FlatMap()\<close>; a failure to open or to read is fatal.  The \<open>cfg\<close> library is not part
  of the repository: its loader is modelled from the specification (section 6, KVLoader) as
  a parser of \<open>name=value\<close> lines, where the name ends at the first \<open>=\<close> and a malformed
  line fails the whole load.  The specification does not say what a blank line or an empty
  name is; the model reads them conservatively: a blank line (also the empty piece after a
  final newline) holds no entry, and a line with an empty name is malformed.  A repeated
  name keeps its last value, as \<open>FlatMap\<close> assigns entries in order.  The file system is a map from file names to
  contents.
\<close>

section \<open>Definitions\<close>

text \<open>One line \<open>name=value\<close>, split at the first \<open>=\<close>.\<close>

definition kv_line :: "string \<Rightarrow> (string \<times> string) option" where
  "kv_line l =
     (let name = takeWhile (\<lambda>c. c \<noteq> CHR ''='') l;
          rest = dropWhile (\<lambda>c. c \<noteq> CHR ''='') l
      in if name = [] \<or> rest = [] then None else Some (name, tl rest))"

text \<open>The lines in order, each entry assigned into the map built so far.\<close>

fun kv_lines :: "string list \<Rightarrow> (string, string) gomap \<Rightarrow> (string, string) gomap option" where
  "kv_lines [] db = Some db"
| "kv_lines (l # ls) db =
     (if l = [] then kv_lines ls db
      else case kv_line l of
             None \<Rightarrow> None
           | Some (name, val) \<Rightarrow> kv_lines ls (AList.update name val db))"

definition kv_load :: "string \<Rightarrow> (string, string) gomap option" where
  "kv_load text = kv_lines (go_split text nl) []"

text \<open>\<open>ingestDb(name)\<close>: \<open>os.Open\<close>, then \<open>cfg.Load\<close>, \<open>BuildMap\<close> and \<open>FlatMap\<close>.\<close>

definition ingestDb :: "(string \<Rightarrow> string option) \<Rightarrow> string \<Rightarrow> error + (string, string) gomap" where
  "ingestDb fs name =
     (case fs name of
        None \<Rightarrow> Inl (DbOpenFailed name)
      | Some text \<Rightarrow>
          (case kv_load text of
             None \<Rightarrow> Inl (DbReadFailed name)
           | Some db \<Rightarrow> Inr db))"

text \<open>
  The reference: a database as a file of \<open>name=value\<close> lines, and the entries a file of
  that form can hold (a non-empty name without \<open>=\<close> and newline, a value without newline).
\<close>

definition kv_render :: "(string, string) gomap \<Rightarrow> string" where
  "kv_render db = join_lines (map (\<lambda>(name, val). name @ CHR ''='' # val) db)"

definition kv_entry_ok :: "string \<times> string \<Rightarrow> bool" where
  "kv_entry_ok e \<longleftrightarrow>
     fst e \<noteq> [] \<and> CHR ''='' \<notin> set (fst e) \<and> nl \<notin> set (fst e) \<and> nl \<notin> set (snd e)"

definition kv_db_ok :: "(string, string) gomap \<Rightarrow> bool" where
  "kv_db_ok db \<longleftrightarrow> distinct (map fst db) \<and> list_all kv_entry_ok db"

section \<open>Lemmas\<close>

lemma kv_line_render:
  assumes "name \<noteq> []" and "CHR ''='' \<notin> set name"
  shows "kv_line (name @ CHR ''='' # val) = Some (name, val)"
proof -
  have "\<forall>c \<in> set name. c \<noteq> CHR ''=''" using assms(2) by blast
  then show ?thesis using assms(1)
    by (simp add: kv_line_def takeWhile_append2 dropWhile_append2 Let_def)
qed

lemma kv_line_Some:
  assumes "kv_line l = Some (name, val)"
  shows "kv_entry_ok (name, val) \<or> nl \<in> set l"
proof -
  have n: "name = takeWhile (\<lambda>c. c \<noteq> CHR ''='') l" and ne: "name \<noteq> []"
    and v: "val = tl (dropWhile (\<lambda>c. c \<noteq> CHR ''='') l)"
    using assms by (auto simp: kv_line_def Let_def split: if_splits)
  have "CHR ''='' \<notin> set name" using n by (auto dest: set_takeWhileD)
  moreover have "set name \<subseteq> set l" using n by (auto dest: set_takeWhileD)
  moreover have "set val \<subseteq> set l" using v
    by (metis dropWhile_eq_drop list.sel(3) set_drop_subset subset_trans drop_Suc tl_drop)
  ultimately show ?thesis using ne by (auto simp: kv_entry_ok_def)
qed

lemma update_absent:
  "k \<notin> fst ` set al \<Longrightarrow> AList.update k v al = al @ [(k, v)]"
  by (induction al) auto

lemma kv_lines_render:
  assumes "distinct (map fst (acc @ db))" and "list_all kv_entry_ok db"
  shows "kv_lines (map (\<lambda>(name, val). name @ CHR ''='' # val) db @ ls) acc = kv_lines ls (acc @ db)"
  using assms
proof (induction db arbitrary: acc)
  case Nil
  then show ?case by simp
next
  case (Cons e db)
  obtain name val where e: "e = (name, val)" by (cases e)
  with Cons.prems have ok: "name \<noteq> []" "CHR ''='' \<notin> set name"
    by (simp_all add: kv_entry_ok_def)
  from Cons.prems e have "name \<notin> fst ` set acc" by auto
  then have "AList.update name val acc = acc @ [(name, val)]" by (rule update_absent)
  with Cons.IH [of "acc @ [(name, val)]"] Cons.prems e ok show ?case
    by (simp add: kv_line_render)
qed

lemma kv_lines_ok:
  assumes "kv_lines ls acc = Some db" and "kv_db_ok acc" and "\<forall>l \<in> set ls. nl \<notin> set l"
  shows "kv_db_ok db"
  using assms
proof (induction ls acc rule: kv_lines.induct)
  case (1 db)
  then show ?case by simp
next
  case (2 l ls acc)
  show ?case
  proof (cases "l = []")
    case True
    with 2 show ?thesis by simp
  next
    case False
    with "2.prems"(1) obtain name val where
      kl: "kv_line l = Some (name, val)" and
      rest: "kv_lines ls (AList.update name val acc) = Some db"
      by (auto split: option.splits)
    from kv_line_Some [OF kl] "2.prems"(3) have "kv_entry_ok (name, val)" by simp
    moreover have "set (AList.update name val acc) \<subseteq> insert (name, val) (set acc)"
      by (induction acc) auto
    ultimately have "kv_db_ok (AList.update name val acc)"
      using "2.prems"(2) by (auto simp: kv_db_ok_def list_all_iff distinct_update)
    with "2.IH"(2) [OF False kl refl] rest "2.prems"(3) show ?thesis by simp
  qed
qed

lemma kv_lines_None:
  "kv_lines ls acc = None \<longleftrightarrow> (\<exists>l \<in> set ls. l \<noteq> [] \<and> kv_line l = None)"
proof (induction ls acc rule: kv_lines.induct)
  case (1 db)
  then show ?case by simp
next
  case (2 l ls acc)
  then show ?case
    by (cases "kv_line l") (auto split: option.splits)
qed

lemma kv_load_render:
  assumes "kv_db_ok db"
  shows "kv_load (kv_render db) = Some db"
proof -
  let ?ls = "map (\<lambda>(name, val). name @ CHR ''='' # val) db"
  have "\<forall>l \<in> set ?ls. nl \<notin> set l"
    using assms by (auto simp: kv_db_ok_def list_all_iff kv_entry_ok_def)
  then have "go_split (kv_render db) nl = ?ls @ [[]]"
    by (simp add: kv_render_def go_split_join_lines)
  with assms show ?thesis
    by (simp add: kv_load_def kv_lines_render kv_db_ok_def)
qed

lemma kv_load_None: "kv_load s = None \<longleftrightarrow> (\<exists>l \<in> set (go_split s nl). l \<noteq> [] \<and> kv_line l = None)"
  by (simp add: kv_load_def kv_lines_None)

lemma ingestDb_render: "fs name = Some (kv_render db) \<Longrightarrow> kv_db_ok db \<Longrightarrow> ingestDb fs name = Inr db"
  by (simp add: ingestDb_def kv_load_render)

section \<open>Properties\<close>

text \<open>
  C16: a database file written as \<open>name=value\<close> lines, one per entry of a well-formed
  database, is loaded by \<open>ingestDb\<close> as that database.
\<close>

theorem ingestDb_roundtrip:
  assumes "fs name = Some (kv_render db)" and "kv_db_ok db"
  shows "ingestDb fs name = Inr db \<and> kv_load (kv_render db) = Some db"
  using assms by (simp add: ingestDb_render kv_load_render)

text \<open>
  C26: every database \<open>ingestDb\<close> returns is well formed: its names are distinct and
  non-empty and hold no \<open>=\<close> and no newline, and its values hold no newline.
\<close>

theorem ingestDb_ok:
  assumes "ingestDb fs name = Inr db"
  shows "kv_db_ok db"
proof -
  from assms obtain content where "kv_load content = Some db"
    by (auto simp: ingestDb_def split: option.splits)
  then show ?thesis
    using kv_lines_ok [of "go_split content nl" "[]" db] go_split_lines_no_nl
    by (simp add: kv_load_def kv_db_ok_def)
qed

text \<open>
  C25: \<open>ingestDb\<close> fails exactly when the file does not open, with the open error naming
  the file, or when a non-blank line of it has no \<open>=\<close> or an empty name, with the read
  error naming the file.
\<close>

theorem ingestDb_errors:
  "ingestDb fs name = Inl e \<longleftrightarrow>
     (fs name = None \<and> e = DbOpenFailed name) \<or>
     (\<exists>text. fs name = Some text \<and> (\<exists>l \<in> set (go_split text nl). l \<noteq> [] \<and> kv_line l = None) \<and>
        e = DbReadFailed name)"
  by (cases "fs name") (auto simp: ingestDb_def kv_load_None [symmetric] split: option.splits)

section \<open>Witnesses\<close>

theorem ingestDb_roundtrip_witness:
  "ingestDb (\<lambda>n. if n = ''from'' then Some (''widgetId=abc-123'' @ [nl]) else None) ''from'' =
     Inr [(''widgetId'', ''abc-123'')]"
proof -
  have r: "kv_render [(''widgetId'', ''abc-123'')] = ''widgetId=abc-123'' @ [nl]"
    by (simp add: kv_render_def join_lines_def)
  have "kv_db_ok [(''widgetId'', ''abc-123'')]" by (simp add: kv_db_ok_def kv_entry_ok_def)
  with ingestDb_roundtrip [of "\<lambda>n. if n = ''from'' then Some (''widgetId=abc-123'' @ [nl]) else None"
      "''from''" "[(''widgetId'', ''abc-123'')]"] r
  show ?thesis by simp
qed

theorem ingestDb_ok_witness:
  "ingestDb (\<lambda>_. Some (''a=1'' @ [nl] @ ''b=x=y'' @ [nl] @ ''a=2'' @ [nl])) ''db'' = Inr [(''a'', ''2''), (''b'', ''x=y'')] \<and>
   kv_db_ok [(''a'', ''2''), (''b'', ''x=y'')]"
proof -
  have h: "ingestDb (\<lambda>_. Some (''a=1'' @ [nl] @ ''b=x=y'' @ [nl] @ ''a=2'' @ [nl])) ''db'' = Inr [(''a'', ''2''), (''b'', ''x=y'')]"
    by (simp add: ingestDb_def kv_load_def kv_line_def)
  from h ingestDb_ok [OF h] show ?thesis by simp
qed

theorem ingestDb_errors_witness:
  "ingestDb (\<lambda>_. Some (''a=1'' @ [nl] @ ''junk'')) ''db'' = Inl (DbReadFailed ''db'') \<and>
   ingestDb (\<lambda>_. None) ''db'' = Inl (DbOpenFailed ''db'')"
proof -
  have "kv_line ''junk'' = None" by (simp add: kv_line_def)
  then have "\<exists>l \<in> set (go_split (''a=1'' @ [nl] @ ''junk'') nl). l \<noteq> [] \<and> kv_line l = None"
    by simp
  then show ?thesis
    using ingestDb_errors [of "\<lambda>_. Some (''a=1'' @ [nl] @ ''junk'')" "''db''" "DbReadFailed ''db''"]
      ingestDb_errors [of "\<lambda>_. None" "''db''" "DbOpenFailed ''db''"]
    by auto
qed

end
