(* ===== verification/Driver.thy ===== *)
theory Driver
  imports Matcher Substitution Headers
begin

text \<open>
  CorrelationDriver: \<open>main\<close> (correlator.go lines 44--236) without its output.  The
  argument checks and the loading of the inputs in the order of the source
  (\<open>load_inputs\<close>); the match phase (lines 114--161), which normalises every Burp item
  with the \<open>from\<close> database and records, per item, one \<open>Pair{api, path}\<close> for every API
  with a matching template; the substitution phase (lines 173--210), which rewrites every
  matched item with the composed table and converts its credential headers; the JSON
  encoding and the replay check (lines 212--233).
  The file, parser and encoder calls are the collaborators of the record \<open>world\<close>: each
  returns its result or the fatal error \<open>main\<close> reports; \<open>err_text\<close> is the text of a
  library error.  The map \<open>matches\<close> is an association list (\<open>AList.update\<close> for
  \<open>matches[i] = append(matches[i], p)\<close>); the order in which
  \<open>for burp := range matches\<close> visits its keys is \<open>key_order\<close> applied to the keys in
  insertion order, any permutation of them.  The output of the process (the buffered
  writers, the diagnostics, the summary lines, the exit status) is in theory \<open>Process\<close>,
  built from the same definitions.
\<close>

section \<open>State and collaborators\<close>

datatype pair = Pair nat int

record match_state =
  pathCount :: "64 word"
  matches :: "(nat, pair list) gomap"

definition init_state :: match_state where
  "init_state = \<lparr>pathCount = 0, matches = []\<rparr>"

record world =
  api_file :: "string \<Rightarrow> error + string list"
  burp_file :: "string \<Rightarrow> bool \<Rightarrow> error + item list"
  db_file :: "string \<Rightarrow> error + (string, string) gomap"
  escaped_path :: "string \<Rightarrow> string option"
  key_order :: "nat list \<Rightarrow> nat list"
  json_encode :: "item list \<Rightarrow> string option"
  err_text :: "error \<Rightarrow> string"

record outcome =
  out_matches :: "(nat, pair list) gomap"
  out_pathCount :: "64 word"
  out_future :: "item list"
  out_json :: "item list option"

section \<open>Match phase\<close>

text \<open>
  One iteration of \<open>for apiIndex, api := range apis\<close>: the closure adds the API's
  template count to \<open>pathCount\<close> on the first item only, then scans the templates; a hit
  appends \<open>Pair{apiIndex, pathIndex}\<close> to the item's list.
\<close>

definition match_api :: "int \<Rightarrow> nat \<Rightarrow> string \<Rightarrow> match_state \<Rightarrow> nat \<times> string list \<Rightarrow> match_state" where
  "match_api fz burpIndex burpPath st ap =
     (let (apiIndex, paths) = ap;
          st1 = (if burpIndex < 1 then st\<lparr>pathCount := pathCount st + of_nat (length paths)\<rparr> else st);
          (found, pathIndex) = find_path fz burpPath paths
      in if \<not> found then st1
         else st1\<lparr>matches := AList.update burpIndex
                   ((case map_of (matches st1) burpIndex of None \<Rightarrow> [] | Some ps \<Rightarrow> ps) @
                    [Pair apiIndex pathIndex])
                   (matches st1)\<rparr>)"

text \<open>
  \<open>for burpIndex, item := range history.Items\<close>: the item is normalised with
  \<open>substitute(left2right, from, item)\<close>, whose URL error is fatal, and its path is tested
  against every API.
\<close>

fun match_phase ::
  "config \<Rightarrow> (string \<Rightarrow> string option) \<Rightarrow> (string, string) gomap \<Rightarrow> string list list \<Rightarrow>
   nat \<Rightarrow> item list \<Rightarrow> match_state \<Rightarrow> error + match_state"
where
  "match_phase cfg ep from apis i [] st = Inr st"
| "match_phase cfg ep from apis i (it # its) st =
     bind_e (substitute cfg ep left2right from it)
       (\<lambda>it'. match_phase cfg ep from apis (Suc i) its
                (fold (\<lambda>ap st. match_api (fuzzy cfg) i (path it') st ap) (enumerate 0 apis) st))"

section \<open>Substitution phase\<close>

text \<open>
  The credential conversion of one item (lines 188--207): with \<open>-omitauth\<close> both
  headers are stripped, otherwise both are rewritten with the flag values; the decoded body
  is edited with \<open>-b64\<close>, the raw request without.
\<close>

definition convert_auth :: "config \<Rightarrow> item \<Rightarrow> error + item" where
  "convert_auth cfg it =
     (if \<not> omitAuth cfg then
        (if b64 cfg then
           Inr (it\<lparr>request := (request it)\<lparr>body :=
             subLine (subLine (body (request it)) ''Authorization:'' (authHeader cfg))
                     ''Cookie:'' (cookieHeader cfg)\<rparr>\<rparr>)
         else
           Inr (it\<lparr>request := (request it)\<lparr>raw :=
             subLine (subLine (raw (request it)) ''Authorization:'' (authHeader cfg))
                     ''Cookie:'' (cookieHeader cfg)\<rparr>\<rparr>))
      else
        (let headers = [''Authorization:'', ''Cookie:''] in
         if b64 cfg then
           bind_e (stripLines (body (request it)) headers)
             (\<lambda>b. Inr (it\<lparr>request := (request it)\<lparr>body := b\<rparr>\<rparr>))
         else
           bind_e (stripLines (raw (request it)) headers)
             (\<lambda>r. Inr (it\<lparr>request := (request it)\<lparr>raw := r\<rparr>\<rparr>))))"

definition convert_item :: "config \<Rightarrow> (string \<Rightarrow> string option) \<Rightarrow> (string, string) gomap \<Rightarrow> item \<Rightarrow> error + item" where
  "convert_item cfg ep tab it =
     bind_e (if \<not> noSub cfg then substitute cfg ep left2right tab it else Inr it)
       (convert_auth cfg)"

text \<open>\<open>for burp := range matches { item := history.Items[burp]; ...; future = append(future, item) }\<close>.\<close>

fun substitution_phase ::
  "config \<Rightarrow> (string \<Rightarrow> string option) \<Rightarrow> (string, string) gomap \<Rightarrow> item list \<Rightarrow>
   nat list \<Rightarrow> item list \<Rightarrow> error + item list"
where
  "substitution_phase cfg ep tab items [] future = Inr future"
| "substitution_phase cfg ep tab items (burp # burps) future =
     (if burp < length items then
        bind_e (convert_item cfg ep tab (items ! burp))
          (\<lambda>it. substitution_phase cfg ep tab items burps (future @ [it]))
      else Inl (IndexOutOfRange burp (length items)))"

section \<open>The run\<close>

fun load_apis :: "(string \<Rightarrow> error + string list) \<Rightarrow> string list \<Rightarrow> error + string list list" where
  "load_apis f [] = Inr []"
| "load_apis f (name # names) =
     bind_e (f name) (\<lambda>api. bind_e (load_apis f names) (\<lambda>apis. Inr (api # apis)))"

text \<open>
  The argument checks and the loading of the inputs (lines 44--110): the API files in
  order, the Burp history, and the two databases.
\<close>

definition load_inputs ::
  "config \<Rightarrow> string list \<Rightarrow> world \<Rightarrow>
   error + string list list \<times> item list \<times> (string, string) gomap \<times> (string, string) gomap"
where
  "load_inputs cfg args w =
     (if length args < 1 then Inl NoApiFiles
      else if ((authHeader cfg = [] \<and> cookieHeader cfg = []) \<or> omitAuth cfg) \<and> doReplay cfg then
        Inl ReplayWithoutAuth
      else
        bind_e (load_apis (api_file w) args) (\<lambda>apis.
        if burpName cfg = [] then Inl NoBurpFile
        else
        bind_e (burp_file w (burpName cfg) (b64 cfg)) (\<lambda>items.
        if length (fromName cfg) < 1 then Inl NoFromDb
        else if length (toName cfg) < 1 then Inl NoToDb
        else
        bind_e (db_file w (fromName cfg)) (\<lambda>from.
        bind_e (db_file w (toName cfg)) (\<lambda>to.
        Inr (apis, items, from, to))))))"

text \<open>
  The whole of \<open>main\<close>: set-up, the two phases, the JSON encoding under \<open>-json\<close> (lines
  212--224, whose failure is fatal) and the replay check (lines 229--233).
\<close>

definition run :: "config \<Rightarrow> string list \<Rightarrow> world \<Rightarrow> error + outcome" where
  "run cfg args w =
     bind_e (load_inputs cfg args w) (\<lambda>(apis, items, from, to).
     bind_e (match_phase cfg (escaped_path w) from apis 0 items init_state) (\<lambda>st.
     bind_e (substitution_phase cfg (escaped_path w) (compose from to) items
               (key_order w (map fst (matches st))) []) (\<lambda>future.
     if emitJSON cfg \<and> json_encode w future = None then Inl JsonEncodeFailed
     else if doReplay cfg then Inl ReplayNotImplemented
     else Inr \<lparr>out_matches = matches st, out_pathCount = pathCount st, out_future = future,
               out_json = (if emitJSON cfg then Some future else None)\<rparr>)))"

section \<open>Reference definitions\<close>

text \<open>
  The pairs the match phase records for one item: for every API, in order, whose scan finds
  a template, the API's index and the template's index.
\<close>

definition item_pairs :: "int \<Rightarrow> string \<Rightarrow> (nat \<times> string list) list \<Rightarrow> pair list" where
  "item_pairs fz p aps =
     map (\<lambda>(a, paths). Pair a (snd (find_path fz p paths)))
         (filter (\<lambda>(a, paths). fst (find_path fz p paths)) aps)"

text \<open>The path of an item after normalisation with the \<open>from\<close> database.\<close>

definition norm_path :: "(string \<Rightarrow> string option) \<Rightarrow> (string, string) gomap \<Rightarrow> item \<Rightarrow> string" where
  "norm_path ep from it = rebuild_path left2right from (the (ep (path it)))"

abbreviation old_pairs :: "match_state \<Rightarrow> nat \<Rightarrow> pair list" where
  "old_pairs st b \<equiv> (case map_of (matches st) b of None \<Rightarrow> [] | Some ps \<Rightarrow> ps)"

section \<open>Example inputs\<close>

text \<open>
  A small run used by the witnesses: one API with three templates, a health check whose
  query carries an id of the \<open>from\<close> database and a widget request, and the databases
  \<open>{widgetId: abc-123}\<close> and \<open>{widgetId: zzz-999}\<close>.
\<close>

definition example_config :: config where
  "example_config = default_config\<lparr>fuzzy := 50, fromName := ''from'', toName := ''to'',
     burpName := ''burp.xml'', authHeader := ''Bearer new'', emitJSON := True\<rparr>"

definition example_items :: "item list" where
  "example_items =
     [\<lparr>url = ''http://h/gw/api/health?id=abc-123'', path = ''/gw/api/health?id=abc-123'',
       request = \<lparr>raw = ''GET /gw/api/health?id=abc-123'' @ [nl] @ ''Authorization: Bearer old'', body = []\<rparr>\<rparr>,
      \<lparr>url = ''http://h/svc/v2/widgets/abc-123/info'', path = ''/svc/v2/widgets/abc-123/info'',
       request = \<lparr>raw = ''GET /svc/v2/widgets/abc-123/info'', body = []\<rparr>\<rparr>]"

definition example_world :: world where
  "example_world =
     \<lparr>api_file = (\<lambda>_. Inr [''/'', ''/api/health'', ''/widgets/{widgetId}/info'']),
      burp_file = (\<lambda>_ _. Inr example_items),
      db_file = (\<lambda>n. if n = ''from'' then Inr [(''widgetId'', ''abc-123'')] else Inr [(''widgetId'', ''zzz-999'')]),
      escaped_path = plain_escaped_path,
      key_order = id,
      json_encode = (\<lambda>its. Some (concat (map url its))),
      err_text = (\<lambda>_. [])\<rparr>"

definition example_future :: "item list" where
  "example_future =
     [\<lparr>url = ''http://h/gw/api/health?id=abc-123'', path = ''/gw/api/health'',
       request = \<lparr>raw = ''GET /gw/api/health?id=zzz-999'' @ [nl] @ ''Authorization: Bearer new'' @ [nl, nl], body = []\<rparr>\<rparr>]"

definition example_strip_items :: "item list" where
  "example_strip_items =
     [\<lparr>url = ''http://h/api/health'', path = ''/api/health'',
       request = \<lparr>raw = ''GET / HTTP/1.1'' @ [nl] @ ''Authorization: Bearer x'' @ [nl] @ ''Host: a'' @ [nl] @ ''Cookie: y'',
                  body = []\<rparr>\<rparr>]"

section \<open>Lemmas\<close>

lemma item_pairs_Nil [simp]: "item_pairs fz p [] = []"
  by (simp add: item_pairs_def)

lemma item_pairs_Cons:
  "item_pairs fz p ((a, paths) # aps) =
     (if fst (find_path fz p paths) then Pair a (snd (find_path fz p paths)) # item_pairs fz p aps
      else item_pairs fz p aps)"
  by (simp add: item_pairs_def)

lemma pathCount_fold_match_api:
  "pathCount (fold (\<lambda>ap st. match_api fz b p st ap) aps st) =
     pathCount st + (if b < 1 then of_nat (sum_list (map (\<lambda>ap. length (snd ap)) aps)) else 0)"
proof (induction aps arbitrary: st)
  case Nil
  then show ?case by simp
next
  case (Cons ap aps)
  obtain a paths where ap: "ap = (a, paths)" by (cases ap)
  show ?case
    using Cons.IH [of "match_api fz b p st ap"] ap
    by (auto simp: match_api_def Let_def algebra_simps split: prod.splits)
qed

lemma matches_fold_match_api:
  "matches (fold (\<lambda>ap st. match_api fz b p st ap) aps st) =
     (if item_pairs fz p aps = [] then matches st
      else AList.update b (old_pairs st b @ item_pairs fz p aps) (matches st))"
proof (induction aps arbitrary: st)
  case Nil
  then show ?case by simp
next
  case (Cons ap aps)
  obtain a paths where ap: "ap = (a, paths)" by (cases ap)
  obtain found k where fp: "find_path fz p paths = (found, k)" by (cases "find_path fz p paths")
  show ?case
  proof (cases found)
    case False
    then have "matches (match_api fz b p st ap) = matches st"
      using ap fp by (simp add: match_api_def Let_def)
    moreover have "old_pairs (match_api fz b p st ap) b = old_pairs st b"
      using False ap fp by (simp add: match_api_def Let_def)
    ultimately show ?thesis
      using Cons.IH [of "match_api fz b p st ap"] ap fp False by (simp add: item_pairs_Cons)
  next
    case True
    let ?st1 = "match_api fz b p st ap"
    have m1: "matches ?st1 = AList.update b (old_pairs st b @ [Pair a k]) (matches st)"
      using True ap fp by (simp add: match_api_def Let_def)
    then have o1: "old_pairs ?st1 b = old_pairs st b @ [Pair a k]"
      by (simp add: update_conv')
    show ?thesis
      using Cons.IH [of ?st1] ap fp True m1 o1 by (simp add: item_pairs_Cons update_last)
  qed
qed

lemma substitute_Inr_path:
  "substitute cfg ep left2right from it = Inr it' \<Longrightarrow> ep (path it) \<noteq> None \<and> path it' = norm_path ep from it"
  by (auto simp: substitute_def norm_path_def Let_def split: option.splits if_splits)

lemma substitute_parsed_Inr:
  "ep (path it) \<noteq> None \<Longrightarrow> \<exists>it'. substitute cfg ep replace tab it = Inr it'"
  by (auto simp: substitute_def Let_def)

lemma keys_fold_match_api:
  "fst ` set (matches (fold (\<lambda>ap st. match_api fz b p st ap) aps st)) \<subseteq> insert b (fst ` set (matches st))"
  by (auto simp: matches_fold_match_api dom_update)

lemma distinct_fold_match_api:
  "distinct (map fst (matches st)) \<Longrightarrow> distinct (map fst (matches (fold (\<lambda>ap st. match_api fz b p st ap) aps st)))"
  by (simp add: matches_fold_match_api distinct_update)

lemma map_of_fold_match_api:
  assumes "b \<notin> fst ` set (matches st)"
  shows "map_of (matches (fold (\<lambda>ap st. match_api fz b p st ap) aps st)) k =
    (if k = b \<and> item_pairs fz p aps \<noteq> [] then Some (item_pairs fz p aps) else map_of (matches st) k)"
proof -
  from assms have "map_of (matches st) b = None" by (simp add: map_of_eq_None_iff)
  then show ?thesis by (auto simp: matches_fold_match_api update_conv')
qed

lemma match_phase_Inr:
  assumes "match_phase cfg ep from apis i its st = Inr st'"
    and "\<forall>k \<in> fst ` set (matches st). k < i"
    and "distinct (map fst (matches st))"
  shows "(\<forall>it \<in> set its. ep (path it) \<noteq> None) \<and>
    (\<forall>k. map_of (matches st') k =
       (if i \<le> k \<and> k < i + length its \<and>
           item_pairs (fuzzy cfg) (norm_path ep from (its ! (k - i))) (enumerate 0 apis) \<noteq> []
        then Some (item_pairs (fuzzy cfg) (norm_path ep from (its ! (k - i))) (enumerate 0 apis))
        else map_of (matches st) k)) \<and>
    (\<forall>k \<in> fst ` set (matches st'). k < i + length its) \<and>
    distinct (map fst (matches st')) \<and>
    pathCount st' = pathCount st + (if i = 0 \<and> its \<noteq> [] then of_nat (sum_list (map length apis)) else 0)"
  using assms
proof (induction its arbitrary: i st)
  case Nil
  then show ?case by auto
next
  case (Cons it its)
  from Cons.prems(1) obtain it' where
    sub: "substitute cfg ep left2right from it = Inr it'" and
    rest: "match_phase cfg ep from apis (Suc i) its
             (fold (\<lambda>ap st. match_api (fuzzy cfg) i (path it') st ap) (enumerate 0 apis) st) = Inr st'"
    by (auto simp: bind_e_eq_Inr)
  let ?st1 = "fold (\<lambda>ap st. match_api (fuzzy cfg) i (path it') st ap) (enumerate 0 apis) st"
  let ?ps = "item_pairs (fuzzy cfg) (norm_path ep from it) (enumerate 0 apis)"
  have sp: "ep (path it) \<noteq> None \<and> path it' = norm_path ep from it"
    by (rule substitute_Inr_path [OF sub])
  then have parse: "ep (path it) \<noteq> None" and pth: "path it' = norm_path ep from it"
    by simp_all
  have notin: "i \<notin> fst ` set (matches st)" using Cons.prems(2) by blast
  have k1: "\<forall>k \<in> fst ` set (matches ?st1). k < Suc i"
    using keys_fold_match_api [of "fuzzy cfg" i "path it'" "enumerate 0 apis" st] Cons.prems(2) by fastforce
  have d1: "distinct (map fst (matches ?st1))"
    using Cons.prems(3) by (rule distinct_fold_match_api)
  have m1: "map_of (matches ?st1) k = (if k = i \<and> ?ps \<noteq> [] then Some ?ps else map_of (matches st) k)" for k
    using map_of_fold_match_api [OF notin] pth by simp
  have len: "map (\<lambda>ap. length (snd ap)) (enumerate n xs) = map length xs" for n and xs :: "string list list"
    by (induction xs arbitrary: n) auto
  have c1: "pathCount ?st1 = pathCount st + (if i = 0 then of_nat (sum_list (map length apis)) else 0)"
    by (simp add: pathCount_fold_match_api len)
  from Cons.IH [OF rest k1 d1] have IH:
    "(\<forall>it \<in> set its. ep (path it) \<noteq> None) \<and>
     (\<forall>k. map_of (matches st') k =
       (if Suc i \<le> k \<and> k < Suc i + length its \<and>
           item_pairs (fuzzy cfg) (norm_path ep from (its ! (k - Suc i))) (enumerate 0 apis) \<noteq> []
        then Some (item_pairs (fuzzy cfg) (norm_path ep from (its ! (k - Suc i))) (enumerate 0 apis))
        else map_of (matches ?st1) k)) \<and>
     (\<forall>k \<in> fst ` set (matches st'). k < Suc i + length its) \<and>
     distinct (map fst (matches st')) \<and>
     pathCount st' = pathCount ?st1 + (if Suc i = 0 \<and> its \<noteq> [] then of_nat (sum_list (map length apis)) else 0)"
    by blast
  have nth: "(it # its) ! (k - i) = its ! (k - Suc i)" if "Suc i \<le> k" for k
  proof -
    from that have "k - i = Suc (k - Suc i)" by arith
    then show ?thesis by simp
  qed
  have maps: "map_of (matches st') k =
       (if i \<le> k \<and> k < i + length (it # its) \<and>
           item_pairs (fuzzy cfg) (norm_path ep from ((it # its) ! (k - i))) (enumerate 0 apis) \<noteq> []
        then Some (item_pairs (fuzzy cfg) (norm_path ep from ((it # its) ! (k - i))) (enumerate 0 apis))
        else map_of (matches st) k)" for k
  proof (cases "k = i")
    case True
    with IH m1 show ?thesis by simp
  next
    case False
    show ?thesis
    proof (cases "Suc i \<le> k")
      case True
      with IH m1 nth False show ?thesis by simp
    next
      case le: False
      with IH m1 False show ?thesis by simp
    qed
  qed
  show ?case
    using IH parse maps c1 by simp
qed

lemma example_config_sel:
  "fuzzy example_config = 50" "fromName example_config = ''from''" "toName example_config = ''to''"
  "burpName example_config = ''burp.xml''" "b64 example_config = False" "noSub example_config = False"
  "skipBody example_config = False" "doReplay example_config = False"
  "authHeader example_config = ''Bearer new''" "cookieHeader example_config = []"
  "omitAuth example_config = False" "emitJSON example_config = True" "chatty example_config = False"
  by (simp_all add: example_config_def default_config_def)

lemma example_world_sel:
  "api_file example_world = (\<lambda>_. Inr [''/'', ''/api/health'', ''/widgets/{widgetId}/info''])"
  "burp_file example_world = (\<lambda>_ _. Inr example_items)"
  "db_file example_world = (\<lambda>n. if n = ''from'' then Inr [(''widgetId'', ''abc-123'')] else Inr [(''widgetId'', ''zzz-999'')])"
  "escaped_path example_world = plain_escaped_path"
  "key_order example_world = id"
  "json_encode example_world = (\<lambda>its. Some (concat (map url its)))"
  by (simp_all add: example_world_def)

lemma example_match_phase:
  "match_phase example_config plain_escaped_path [(''widgetId'', ''abc-123'')]
     [[''/'', ''/api/health'', ''/widgets/{widgetId}/info'']] 0 example_items init_state =
   Inr \<lparr>pathCount = 3, matches = [(0, [Pair 0 1])]\<rparr>"
  by (simp add: example_config_sel example_items_def init_state_def substitute_def
      plain_escaped_path_def rebuild_path_def left2right_def replace_all_Cons replace_all_Nil has_prefix_def
      match_api_def find_path_def match_def has_suffix_def Let_def)

lemma example_substitution_phase:
  "substitution_phase example_config plain_escaped_path [(''abc-123'', ''zzz-999'')] example_items [0] [] =
   Inr example_future"
  by (simp add: example_config_sel example_items_def example_future_def substitute_def plain_escaped_path_def
      rebuild_path_def left2right_def replace_all_Cons replace_all_Nil has_prefix_def convert_item_def
      convert_auth_def subLine_def join_lines_def Let_def)

lemma example_strip_match_phase:
  "match_phase (example_config\<lparr>omitAuth := True\<rparr>) plain_escaped_path [] [[''/api/health'']] 0 example_strip_items init_state =
     Inr \<lparr>pathCount = 1, matches = [(0, [Pair 0 0])]\<rparr>"
  by (simp add: example_config_sel example_strip_items_def init_state_def substitute_def
      plain_escaped_path_def rebuild_path_def left2right_def has_prefix_def
      match_api_def find_path_def match_def has_suffix_def Let_def)

lemma example_strip_substitution_phase:
  "substitution_phase (example_config\<lparr>omitAuth := True\<rparr>) plain_escaped_path [] example_strip_items [0] [] =
     Inl (SliceOutOfRange 4 3)"
  by (simp add: example_config_sel example_strip_items_def substitute_def plain_escaped_path_def
      rebuild_path_def left2right_def has_prefix_def convert_item_def
      convert_auth_def stripLines_def cut_indices_def Let_def)

lemma example_run:
  "run example_config [''api.json''] example_world =
   Inr \<lparr>out_matches = [(0, [Pair 0 1])], out_pathCount = 3, out_future = example_future,
        out_json = Some example_future\<rparr>"
proof -
  have c: "compose [(''widgetId'', ''abc-123'')] [(''widgetId'', ''zzz-999'')] = [(''abc-123'', ''zzz-999'')]"
    by (simp add: compose_def)
  show ?thesis
    by (simp add: run_def load_inputs_def example_config_sel example_world_sel example_match_phase c example_substitution_phase del: substitution_phase.simps)
qed


lemma substitution_phase_Inr:
  "substitution_phase cfg ep tab items os fut = Inr fut' \<longleftrightarrow>
     (\<forall>b \<in> set os. b < length items \<and> \<not> isl (convert_item cfg ep tab (items ! b))) \<and>
     fut' = fut @ map (\<lambda>b. projr (convert_item cfg ep tab (items ! b))) os"
proof (induction os arbitrary: fut)
  case Nil
  then show ?case by auto
next
  case (Cons b os)
  show ?case
  proof (cases "b < length items")
    case True
    then show ?thesis
      using Cons.IH by (cases "convert_item cfg ep tab (items ! b)") auto
  next
    case False
    then show ?thesis by simp
  qed
qed

lemma substitution_phase_Inl:
  "substitution_phase cfg ep tab items os fut = Inl e \<Longrightarrow>
     \<exists>b \<in> set os. (b < length items \<and> convert_item cfg ep tab (items ! b) = Inl e) \<or>
                 (length items \<le> b \<and> e = IndexOutOfRange b (length items))"
proof (induction os arbitrary: fut)
  case Nil
  then show ?case by simp
next
  case (Cons b os)
  show ?case
  proof (cases "b < length items")
    case True
    show ?thesis
    proof (cases "convert_item cfg ep tab (items ! b)")
      case (Inl e')
      with True Cons.prems show ?thesis by auto
    next
      case (Inr it)
      with True Cons.prems Cons.IH [of "fut @ [it]"] show ?thesis by auto
    qed
  next
    case False
    with Cons.prems show ?thesis by auto
  qed
qed

lemma convert_auth_Inl:
  "convert_auth cfg it = Inl e \<Longrightarrow> omitAuth cfg \<and> (\<exists>lo len. e = SliceOutOfRange lo len)"
proof -
  have strip: "stripLines s hs = Inl e \<Longrightarrow> \<exists>lo len. e = SliceOutOfRange lo len" for s hs
  proof -
    have "cut_lines is ls = Inl e \<Longrightarrow> \<exists>lo len. e = SliceOutOfRange lo len" for "is" ls
      by (induction "is" ls rule: cut_lines.induct) (auto split: if_splits)
    then show "stripLines s hs = Inl e \<Longrightarrow> \<exists>lo len. e = SliceOutOfRange lo len"
      by (auto simp: stripLines_def Let_def split: sum.splits)
  qed
  show "convert_auth cfg it = Inl e \<Longrightarrow> omitAuth cfg \<and> (\<exists>lo len. e = SliceOutOfRange lo len)"
    by (auto simp: convert_auth_def Let_def bind_e_eq_Inl split: if_splits dest: strip)
qed

lemma convert_auth_path:
  "convert_auth cfg it = Inr it' \<Longrightarrow> path it' = path it"
  by (auto simp: convert_auth_def Let_def bind_e_eq_Inr split: if_splits)

lemma convert_item_path:
  assumes "convert_item cfg ep tab it = Inr it'"
  shows "path it' = (if noSub cfg then path it else rebuild_path left2right tab (the (ep (path it))))"
  using assms substitute_Inr_path [of cfg ep tab it]
  by (auto simp: convert_item_def bind_e_eq_Inr norm_path_def dest: convert_auth_path split: if_splits)

lemma load_inputs_Inr:
  "load_inputs cfg args w = Inr (apis, items, fdb, tdb) \<longleftrightarrow>
     args \<noteq> [] \<and> \<not> (((authHeader cfg = [] \<and> cookieHeader cfg = []) \<or> omitAuth cfg) \<and> doReplay cfg) \<and>
     load_apis (api_file w) args = Inr apis \<and> burpName cfg \<noteq> [] \<and>
     burp_file w (burpName cfg) (b64 cfg) = Inr items \<and> fromName cfg \<noteq> [] \<and> toName cfg \<noteq> [] \<and>
     db_file w (fromName cfg) = Inr fdb \<and> db_file w (toName cfg) = Inr tdb"
  by (auto simp: load_inputs_def bind_e_eq_Inr)

lemma run_Inr:
  assumes "run cfg args w = Inr out"
  obtains apis items fdb tdb st future where
    "load_apis (api_file w) args = Inr apis"
    "burp_file w (burpName cfg) (b64 cfg) = Inr items"
    "db_file w (fromName cfg) = Inr fdb"
    "db_file w (toName cfg) = Inr tdb"
    "match_phase cfg (escaped_path w) fdb apis 0 items init_state = Inr st"
    "substitution_phase cfg (escaped_path w) (compose fdb tdb) items
       (key_order w (map fst (matches st))) [] = Inr future"
    "\<not> doReplay cfg"
    "out = \<lparr>out_matches = matches st, out_pathCount = pathCount st, out_future = future,
            out_json = (if emitJSON cfg then Some future else None)\<rparr>"
proof -
  from assms obtain apis items fdb tdb where
    s: "load_inputs cfg args w = Inr (apis, items, fdb, tdb)" and
    r: "bind_e (match_phase cfg (escaped_path w) fdb apis 0 items init_state) (\<lambda>st.
        bind_e (substitution_phase cfg (escaped_path w) (compose fdb tdb) items
                 (key_order w (map fst (matches st))) []) (\<lambda>future.
        if emitJSON cfg \<and> json_encode w future = None then Inl JsonEncodeFailed
        else if doReplay cfg then Inl ReplayNotImplemented
        else Inr \<lparr>out_matches = matches st, out_pathCount = pathCount st, out_future = future,
                  out_json = (if emitJSON cfg then Some future else None)\<rparr>)) = Inr out"
    by (auto simp: run_def bind_e_eq_Inr)
  from r show thesis using s that by (auto simp: load_inputs_Inr bind_e_eq_Inr split: if_splits)
qed

section \<open>Properties of the driver\<close>

text \<open>
  C22: without \<open>-omitauth\<close>, converting a request rewrites, in the field \<open>-b64\<close> selects,
  every \<open>Authorization:\<close> line to \<open>Authorization: \<close> and the \<open>-auth\<close> value and every
  \<open>Cookie:\<close> line to \<open>Cookie: \<close> and the \<open>-cookie\<close> value, keeps every other line, and
  ends the text with two empty lines (each \<open>subLine\<close> adds a newline); the other field is
  untouched.  With the default empty \<open>-auth\<close> and \<open>-cookie\<close> the credentials are blanked.
\<close>

theorem convert_auth_headers:
  assumes "\<not> omitAuth cfg" and "nl \<notin> set (authHeader cfg)" and "nl \<notin> set (cookieHeader cfg)"
  shows "\<exists>it'. convert_auth cfg it = Inr it' \<and> url it' = url it \<and> path it' = path it \<and>
    (if b64 cfg then raw (request it') = raw (request it) else body (request it') = body (request it)) \<and>
    go_split ((if b64 cfg then body else raw) (request it')) nl =
      map (\<lambda>line. if has_prefix line ''Authorization:'' then ''Authorization:'' @ CHR '' '' # authHeader cfg
                  else if has_prefix line ''Cookie:'' then ''Cookie:'' @ CHR '' '' # cookieHeader cfg else line)
          (go_split ((if b64 cfg then body else raw) (request it)) nl) @ [[], []]"
proof -
  let ?f = "\<lambda>line. if has_prefix line ''Authorization:'' then ''Authorization:'' @ CHR '' '' # authHeader cfg else line"
  let ?g = "\<lambda>line. if has_prefix line ''Cookie:'' then ''Cookie:'' @ CHR '' '' # cookieHeader cfg else line"
  let ?h = "\<lambda>line. if has_prefix line ''Authorization:'' then ''Authorization:'' @ CHR '' '' # authHeader cfg
                  else if has_prefix line ''Cookie:'' then ''Cookie:'' @ CHR '' '' # cookieHeader cfg else line"
  have na: "\<not> has_prefix (''Authorization:'' @ CHR '' '' # a) ''Cookie:''" for a
    by (simp add: has_prefix_def)
  have ne: "\<not> has_prefix [] ''Cookie:''" by (simp add: has_prefix_def)
  have pt: "?g (?f x) = ?h x" for x using na by simp
  have two: "go_split (subLine (subLine s ''Authorization:'' (authHeader cfg)) ''Cookie:'' (cookieHeader cfg)) nl =
      map ?h (go_split s nl) @ [[], []]" for s
  proof -
    have "go_split (subLine (subLine s ''Authorization:'' (authHeader cfg)) ''Cookie:'' (cookieHeader cfg)) nl =
        map ?g (map ?f (go_split s nl) @ [[]]) @ [[]]"
      using subLine_split [OF assms(3)] subLine_split [OF assms(2)] by simp
    moreover have "map ?g (map ?f (go_split s nl)) = map ?h (go_split s nl)"
      by (simp only: map_map comp_def pt)
    ultimately show ?thesis using ne by simp
  qed
  show ?thesis using assms(1) by (simp add: convert_auth_def two)
qed

text \<open>
  C20: the match phase fails exactly when the URL parser rejects the path of some item, and
  the fatal error names the first such path.
\<close>

theorem match_phase_error:
  "match_phase cfg ep from apis i its st = Inl e \<longleftrightarrow>
     (\<exists>k < length its. ep (path (its ! k)) = None \<and> (\<forall>j < k. ep (path (its ! j)) \<noteq> None) \<and>
        e = UrlParseFailed (path (its ! k)))"
proof (induction its arbitrary: i st)
  case Nil
  then show ?case by simp
next
  case (Cons it its)
  have first: "(\<exists>k < length (it # its). ep (path ((it # its) ! k)) = None \<and>
      (\<forall>j < k. ep (path ((it # its) ! j)) \<noteq> None) \<and> e = UrlParseFailed (path ((it # its) ! k))) \<longleftrightarrow>
    (if ep (path it) = None then e = UrlParseFailed (path it)
     else (\<exists>k < length its. ep (path (its ! k)) = None \<and> (\<forall>j < k. ep (path (its ! j)) \<noteq> None) \<and>
        e = UrlParseFailed (path (its ! k))))"
    using ex_first_Cons [where x = it and xs = its and P = "\<lambda>x. ep (path x) = None" and Q = "\<lambda>x. e = UrlParseFailed (path x)"]
    by (simp del: not_None_eq)
  show ?case
  proof (cases "ep (path it)")
    case None
    then show ?thesis unfolding first by (auto simp: substitute_def)
  next
    case (Some base)
    then obtain it' where "substitute cfg ep left2right from it = Inr it'"
      using substitute_parsed_Inr [of ep it cfg left2right] by auto
    with Some Cons.IH show ?thesis unfolding first by simp
  qed
qed

theorem match_phase_error_witness:
  "match_phase example_config (\<lambda>_. None) [] [] 0 example_items init_state =
   Inl (UrlParseFailed ''/gw/api/health?id=abc-123'')"
  by (rule match_phase_error [THEN iffD2]) (auto simp: example_items_def intro!: exI [of _ 0])
text \<open>
  C1: the match phase records, for every Burp item by its index, the pairs
  \<open>(apiIndex, pathIndex)\<close> of the APIs, in order, one of whose templates matches the
  item's normalised path, and records nothing for an item no API matches.
\<close>

theorem match_phase_records:
  assumes "match_phase cfg ep from apis 0 items init_state = Inr st"
  shows "distinct (map fst (matches st)) \<and>
    (\<forall>b. map_of (matches st) b =
       (if b < length items \<and> item_pairs (fuzzy cfg) (norm_path ep from (items ! b)) (enumerate 0 apis) \<noteq> []
        then Some (item_pairs (fuzzy cfg) (norm_path ep from (items ! b)) (enumerate 0 apis))
        else None))"
  using match_phase_Inr [OF assms] by (simp add: init_state_def)


theorem match_phase_records_witness:
  "match_phase example_config plain_escaped_path [(''widgetId'', ''abc-123'')]
     [[''/'', ''/api/health'', ''/widgets/{widgetId}/info'']] 0 example_items init_state =
   Inr \<lparr>pathCount = 3, matches = [(0, [Pair 0 1])]\<rparr> \<and>
   item_pairs 50 (norm_path plain_escaped_path [(''widgetId'', ''abc-123'')] (example_items ! 0))
     (enumerate 0 [[''/'', ''/api/health'', ''/widgets/{widgetId}/info'']]) = [Pair 0 1] \<and>
   map_of [(0::nat, [Pair 0 1])] 1 = None"
proof -
  note r = match_phase_records [OF example_match_phase]
  from r have "map_of [(0::nat, [Pair 0 1])] 0 =
     (if 0 < length example_items \<and> item_pairs 50 (norm_path plain_escaped_path [(''widgetId'', ''abc-123'')] (example_items ! 0))
        (enumerate 0 [[''/'', ''/api/health'', ''/widgets/{widgetId}/info'']]) \<noteq> []
      then Some (item_pairs 50 (norm_path plain_escaped_path [(''widgetId'', ''abc-123'')] (example_items ! 0))
        (enumerate 0 [[''/'', ''/api/health'', ''/widgets/{widgetId}/info'']])) else None)"
    by (simp only: example_config_sel match_state.simps)
  then have "item_pairs 50 (norm_path plain_escaped_path [(''widgetId'', ''abc-123'')] (example_items ! 0))
     (enumerate 0 [[''/'', ''/api/health'', ''/widgets/{widgetId}/info'']]) = [Pair 0 1]"
    by (simp split: if_splits)
  then show ?thesis using example_match_phase by simp
qed
text \<open>
  C9: \<open>pathCount\<close> counts every template of every API once, on the first item only,
  modulo \<open>2^64\<close>, and stays 0 for an empty history.
\<close>

theorem match_phase_pathCount:
  assumes "match_phase cfg ep from apis 0 items init_state = Inr st"
  shows "unat (pathCount st) = (if items = [] then 0 else sum_list (map length apis) mod 2 ^ 64)"
  using match_phase_Inr [OF assms] by (simp add: init_state_def unat_of_nat)


theorem match_phase_pathCount_witness:
  "match_phase example_config plain_escaped_path [(''widgetId'', ''abc-123'')]
     [[''/'', ''/api/health'', ''/widgets/{widgetId}/info'']] 0 example_items init_state =
   Inr \<lparr>pathCount = 3, matches = [(0, [Pair 0 1])]\<rparr> \<and> unat (3 :: 64 word) = 3"
  using match_phase_pathCount [OF example_match_phase] example_match_phase
  by (simp add: example_items_def)
text \<open>
  The order in which \<open>range matches\<close> visits the matched items changes only the
  order of the correlated items, not which items are produced.
\<close>

lemma substitution_phase_perm:
  assumes "substitution_phase cfg ep tab items os [] = Inr fut" and "mset os' = mset os"
  shows "\<exists>fut'. substitution_phase cfg ep tab items os' [] = Inr fut' \<and> mset fut' = mset fut"
proof -
  let ?g = "\<lambda>b. projr (convert_item cfg ep tab (items ! b))"
  from assms(1) have ok: "\<forall>b \<in> set os. b < length items \<and> \<not> isl (convert_item cfg ep tab (items ! b))"
    and fut: "fut = map ?g os"
    by (simp_all add: substitution_phase_Inr)
  have "set os' = set os" using assms(2) by (metis set_mset_mset)
  with ok have "substitution_phase cfg ep tab items os' [] = Inr (map ?g os')"
    by (simp add: substitution_phase_Inr)
  moreover have "mset (map ?g os') = mset (map ?g os)" using assms(2) by simp
  ultimately show ?thesis using fut by blast
qed


theorem substitution_phase_perm_witness:
  "\<exists>fut. substitution_phase example_config plain_escaped_path [(''abc-123'', ''zzz-999'')] example_items [0, 1] [] = Inr fut \<and>
     (\<exists>fut'. substitution_phase example_config plain_escaped_path [(''abc-123'', ''zzz-999'')] example_items [1, 0] [] = Inr fut' \<and>
        mset fut' = mset fut)"
proof -
  obtain fut where f: "substitution_phase example_config plain_escaped_path [(''abc-123'', ''zzz-999'')] example_items [0, 1] [] = Inr fut"
    by (simp add: example_config_sel example_items_def substitute_def plain_escaped_path_def
      rebuild_path_def left2right_def replace_all_Cons replace_all_Nil has_prefix_def convert_item_def
      convert_auth_def subLine_def join_lines_def Let_def)
  have "mset [1, 0::nat] = mset [0, 1]" by simp
  from substitution_phase_perm [OF f this] f show ?thesis by blast
qed
text \<open>
  C21: after a successful match phase, the substitution phase, visiting the matched items
  in any order, can fail only by the slice panic of \<open>stripLines\<close> under \<open>-omitauth\<close>:
  every index is in range and every path parses again.
\<close>

theorem substitution_phase_errors:
  assumes "match_phase cfg ep from apis 0 items init_state = Inr st"
    and "mset os = mset (map fst (matches st))"
    and "substitution_phase cfg ep tab items os [] = Inl e"
  shows "omitAuth cfg \<and> (\<exists>lo len. e = SliceOutOfRange lo len)"
proof -
  from match_phase_Inr [OF assms(1)]
  have parse: "\<forall>it \<in> set items. ep (path it) \<noteq> None"
    and keys: "\<forall>k \<in> fst ` set (matches st). k < length items"
    by (simp_all add: init_state_def)
  from substitution_phase_Inl [OF assms(3)] obtain b where b: "b \<in> set os" and
    cases: "(b < length items \<and> convert_item cfg ep tab (items ! b) = Inl e) \<or>
            (length items \<le> b \<and> e = IndexOutOfRange b (length items))"
    by blast
  have "set os = fst ` set (matches st)"
    using assms(2) by (metis list.set_map set_mset_mset)
  with b keys have lt: "b < length items" by blast
  with cases have conv: "convert_item cfg ep tab (items ! b) = Inl e" by simp
  from lt parse have "ep (path (items ! b)) \<noteq> None" by simp
  then have "\<exists>it'. substitute cfg ep left2right tab (items ! b) = Inr it'"
    by (rule substitute_parsed_Inr)
  then obtain it' where "(if \<not> noSub cfg then substitute cfg ep left2right tab (items ! b) else Inr (items ! b)) = Inr it'"
    by (cases "noSub cfg") auto
  with conv have "convert_auth cfg it' = Inl e" by (simp add: convert_item_def)
  then show ?thesis by (rule convert_auth_Inl)
qed


theorem substitution_phase_errors_witness:
  "match_phase (example_config\<lparr>omitAuth := True\<rparr>) plain_escaped_path [] [[''/api/health'']] 0 example_strip_items init_state =
     Inr \<lparr>pathCount = 1, matches = [(0, [Pair 0 0])]\<rparr> \<and>
   substitution_phase (example_config\<lparr>omitAuth := True\<rparr>) plain_escaped_path [] example_strip_items [0] [] =
     Inl (SliceOutOfRange 4 3) \<and>
   omitAuth (example_config\<lparr>omitAuth := True\<rparr>)"
proof -
  note m = example_strip_match_phase and s = example_strip_substitution_phase
  have "mset [0::nat] = mset (map fst (matches \<lparr>pathCount = 1, matches = [(0::nat, [Pair 0 0])]\<rparr>))" by simp
  from substitution_phase_errors [OF m this s] m s show ?thesis by simp
qed
text \<open>
  A run with \<open>-replay\<close> never succeeds: it ends in a fatal error, at the latest
  with "replay not yet implemented".
\<close>

lemma run_replay_fails:
  assumes "doReplay cfg"
  shows "\<exists>e. run cfg args w = Inl e"
proof (cases "run cfg args w")
  case (Inl e)
  then show ?thesis by blast
next
  case (Inr out)
  then have "\<not> doReplay cfg" by (rule run_Inr)
  with assms show ?thesis by simp
qed


theorem run_replay_fails_witness:
  "doReplay (example_config\<lparr>doReplay := True\<rparr>) \<and>
   (\<exists>e. run (example_config\<lparr>doReplay := True\<rparr>) [''api.json''] example_world = Inl e)"
  using run_replay_fails [of "example_config\<lparr>doReplay := True\<rparr>" "[''api.json'']" example_world] by simp
text \<open>
  C35: \<open>-replay\<close> with \<open>-omitauth\<close> is rejected by the argument check, although its
  message asks the user to specify or explicitly omit the credentials.
\<close>

theorem run_omitauth_replay_rejected:
  assumes "args \<noteq> []" and "omitAuth cfg" and "doReplay cfg"
  shows "run cfg args w = Inl ReplayWithoutAuth"
  using assms by (simp add: run_def load_inputs_def)


theorem run_omitauth_replay_rejected_witness:
  "run (example_config\<lparr>omitAuth := True, doReplay := True\<rparr>) [''api.json''] example_world = Inl ReplayWithoutAuth"
  using run_omitauth_replay_rejected [of "[''api.json'']" "example_config\<lparr>omitAuth := True, doReplay := True\<rparr>" example_world]
  by simp
text \<open>
  C8: a successful run loaded every input, its match record and path count are those of
  the match phase, its correlated items are the converted matched items (in some order),
  the JSON output is those items exactly when \<open>-json\<close> is set, and \<open>-replay\<close> is off.
\<close>

theorem run_outcome:
  assumes "\<forall>ks. mset (key_order w ks) = mset ks" and "run cfg args w = Inr out"
  shows "\<exists>apis items from to.
    load_apis (api_file w) args = Inr apis \<and> burp_file w (burpName cfg) (b64 cfg) = Inr items \<and>
    db_file w (fromName cfg) = Inr from \<and> db_file w (toName cfg) = Inr to \<and>
    match_phase cfg (escaped_path w) from apis 0 items init_state =
      Inr \<lparr>pathCount = out_pathCount out, matches = out_matches out\<rparr> \<and>
    mset (out_future out) =
      mset (map (\<lambda>b. projr (convert_item cfg (escaped_path w) (compose from to) (items ! b)))
                (map fst (out_matches out))) \<and>
    out_json out = (if emitJSON cfg then Some (out_future out) else None) \<and> \<not> doReplay cfg"
proof -
  from assms(2) obtain apis items fdb tdb st future where
    a: "load_apis (api_file w) args = Inr apis" and
    i: "burp_file w (burpName cfg) (b64 cfg) = Inr items" and
    f: "db_file w (fromName cfg) = Inr fdb" and
    t: "db_file w (toName cfg) = Inr tdb" and
    m: "match_phase cfg (escaped_path w) fdb apis 0 items init_state = Inr st" and
    s: "substitution_phase cfg (escaped_path w) (compose fdb tdb) items
          (key_order w (map fst (matches st))) [] = Inr future" and
    r: "\<not> doReplay cfg" and
    o: "out = \<lparr>out_matches = matches st, out_pathCount = pathCount st, out_future = future,
              out_json = (if emitJSON cfg then Some future else None)\<rparr>"
    by (rule run_Inr)
  let ?g = "\<lambda>b. projr (convert_item cfg (escaped_path w) (compose fdb tdb) (items ! b))"
  from s have "future = map ?g (key_order w (map fst (matches st)))"
    by (simp add: substitution_phase_Inr)
  then have "mset future = mset (map ?g (map fst (matches st)))"
    using assms(1) by (metis mset_map)
  moreover have "st = \<lparr>pathCount = pathCount st, matches = matches st\<rparr>" by simp
  ultimately show ?thesis using a i f t m r o by auto
qed


theorem run_outcome_witness:
  "run example_config [''api.json''] example_world =
     Inr \<lparr>out_matches = [(0, [Pair 0 1])], out_pathCount = 3, out_future = example_future,
          out_json = Some example_future\<rparr> \<and>
   (\<exists>apis items from to.
    load_apis (api_file example_world) [''api.json''] = Inr apis \<and>
    burp_file example_world (burpName example_config) (b64 example_config) = Inr items \<and>
    db_file example_world (fromName example_config) = Inr from \<and> db_file example_world (toName example_config) = Inr to \<and>
    match_phase example_config (escaped_path example_world) from apis 0 items init_state =
      Inr \<lparr>pathCount = 3, matches = [(0, [Pair 0 1])]\<rparr>)"
proof -
  have k: "\<forall>ks. mset (key_order example_world ks) = mset ks" by (simp add: example_world_sel)
  from run_outcome [OF k example_run] example_run show ?thesis by auto
qed
text \<open>
  without \<open>-auth\<close> and \<open>-cookie\<close> and without \<open>-omitauth\<close>, the default run
  blanks the credentials of every correlated request instead of keeping them.
\<close>

lemma default_credentials_blanked:
  "convert_auth default_config
     \<lparr>url = ''u'', path = ''/'', request = \<lparr>raw = ''GET /'' @ [nl] @ ''Authorization: Bearer t'' @ [nl] @ ''Cookie: c'', body = []\<rparr>\<rparr> =
   Inr \<lparr>url = ''u'', path = ''/'', request = \<lparr>raw = ''GET /'' @ [nl] @ ''Authorization: '' @ [nl] @ ''Cookie: '' @ [nl, nl], body = []\<rparr>\<rparr>"
  by (simp add: convert_auth_def default_config_def subLine_def join_lines_def has_prefix_def)


theorem convert_auth_headers_witness:
  "\<exists>it'. convert_auth example_config (example_items ! 0) = Inr it' \<and>
     go_split (raw (request it')) nl = [''GET /gw/api/health?id=abc-123'', ''Authorization: Bearer new'', [], []]"
proof -
  have h: "\<not> omitAuth example_config" "nl \<notin> set (authHeader example_config)"
    "nl \<notin> set (cookieHeader example_config)"
    by (simp_all add: example_config_def default_config_def)
  from convert_auth_headers [OF h, of "example_items ! 0"] show ?thesis
    by (simp add: example_config_def default_config_def example_items_def has_prefix_def) blast
qed

end
