(* ===== verification/Output.thy ===== *)
theory Output
  imports Prelude
begin

text \<open>
  The output path of \<open>main\<close>: the two \<open>bufio.Writer\<close>s over standard output and
  standard error (lines 78--83), the decimal formatting of \<open>fmt\<close> for the summary lines,
  as Process uses them.  \<open>bufio\<close> and \<open>fmt\<close> are Go's standard library; their
  model follows the library source (\<open>bufio.Writer.Write\<close>, \<open>Flush\<close>, the \<open>%d\<close> verb).
\<close>

section \<open>Decimal numbers\<close>

text \<open>The digit table of \<open>fmt\<close> (\<open>ldigits = "0123456789abcdefx"\<close>).\<close>

definition digit_char :: "nat \<Rightarrow> char" where
  "digit_char d = ''0123456789abcdefx'' ! d"

text \<open>\<open>fmt\<close>'s \<open>%d\<close> (and \<open>%v\<close> of an integer) on a non-negative value.\<close>

fun go_utoa :: "nat \<Rightarrow> string" where
  "go_utoa n = (if n < 10 then [digit_char n] else go_utoa (n div 10) @ [digit_char (n mod 10)])"

declare go_utoa.simps [simp del]

definition go_itoa :: "int \<Rightarrow> string" where
  "go_itoa i = (if i < 0 then CHR ''-'' # go_utoa (nat (- i)) else go_utoa (nat i))"

text \<open>The reference reading of a decimal numeral.\<close>

definition dec_val :: "string \<Rightarrow> nat" where
  "dec_val s = foldl (\<lambda>acc c. 10 * acc + (of_char c - 48)) 0 s"

section \<open>Buffered writers\<close>

text \<open>
  A \<open>bufio.Writer\<close>: its buffer size, the bytes in its buffer (\<open>b.buf[:b.n]\<close>), and
  the bytes its underlying file has received.  \<open>bufio.NewWriter\<close> uses 4096 bytes.
\<close>

record bufw =
  bw_size :: nat
  bw_buf :: string
  bw_out :: string

definition bw_new :: bufw where
  "bw_new = \<lparr>bw_size = 4096, bw_buf = [], bw_out = []\<rparr>"

text \<open>\<open>Flush\<close>: the buffered bytes go to the file.\<close>

definition bw_flush :: "bufw \<Rightarrow> bufw" where
  "bw_flush b = b\<lparr>bw_out := bw_out b @ bw_buf b, bw_buf := []\<rparr>"

text \<open>
  \<open>Write(p)\<close>: while \<open>p\<close> does not fit in the free space, a large write into an empty
  buffer goes to the file directly, otherwise the buffer is filled and flushed; the rest
  is copied into the buffer.  (\<open>WriteString\<close> on an \<open>*os.File\<close> does the same.)  The
  file never fails.
\<close>

partial_function (option) bw_write :: "bufw \<Rightarrow> string \<Rightarrow> bufw option" where
  "bw_write b p =
     (if bw_size b - length (bw_buf b) < length p then
        (if bw_buf b = [] then bw_write (b\<lparr>bw_out := bw_out b @ p\<rparr>) []
         else
           (let n = bw_size b - length (bw_buf b)
            in bw_write (bw_flush (b\<lparr>bw_buf := bw_buf b @ take n p\<rparr>)) (drop n p)))
      else Some (b\<lparr>bw_buf := bw_buf b @ p\<rparr>))"

declare bw_write.simps [code]

text \<open>Everything written so far, delivered or buffered: the abstraction of a writer.\<close>

definition bw_abs :: "bufw \<Rightarrow> string" where
  "bw_abs b = bw_out b @ bw_buf b"

text \<open>A write whose result is used: \<open>bw_write\<close> always returns (\<open>bw_write_total\<close>).\<close>

definition bw_put :: "bufw \<Rightarrow> string \<Rightarrow> bufw" where
  "bw_put b p = the (bw_write b p)"

section \<open>Lemmas\<close>

lemma of_char_digit_char: "d < 10 \<Longrightarrow> of_char (digit_char d) = 48 + d"
  by (auto simp: digit_char_def less_Suc_eq numeral_eq_Suc)

lemma dec_val_snoc: "dec_val (s @ [c]) = 10 * dec_val s + (of_char c - 48)"
  by (simp add: dec_val_def)

lemma bw_write_fits:
  "length p \<le> bw_size b - length (bw_buf b) \<Longrightarrow> bw_write b p = Some (b\<lparr>bw_buf := bw_buf b @ p\<rparr>)"
  by (subst bw_write.simps) simp

lemma bw_write_direct:
  "bw_buf b = [] \<Longrightarrow> bw_size b < length p \<Longrightarrow> bw_write b p = Some (b\<lparr>bw_out := bw_out b @ p\<rparr>)"
  by (subst bw_write.simps) (simp add: bw_write_fits)

lemma bw_write_fill:
  "bw_size b - length (bw_buf b) < length p \<Longrightarrow> bw_buf b \<noteq> [] \<Longrightarrow>
   bw_write b p = bw_write (bw_flush (b\<lparr>bw_buf := bw_buf b @ take (bw_size b - length (bw_buf b)) p\<rparr>))
                    (drop (bw_size b - length (bw_buf b)) p)"
  by (subst bw_write.simps) (simp add: Let_def)

lemma bw_write_ex: "\<exists>b'. bw_write b p = Some b'"
proof (induction "2 * length p + (if bw_buf b = [] then 0 else 1)" arbitrary: b p rule: less_induct)
  case less
  show ?case
  proof (cases "bw_size b - length (bw_buf b) < length p")
    case False
    then show ?thesis by (simp add: bw_write_fits)
  next
    case big: True
    show ?thesis
    proof (cases "bw_buf b = []")
      case True
      with big show ?thesis by (simp add: bw_write_direct)
    next
      case False
      let ?n = "bw_size b - length (bw_buf b)"
      let ?b = "bw_flush (b\<lparr>bw_buf := bw_buf b @ take ?n p\<rparr>)"
      have "2 * length (drop ?n p) + (if bw_buf ?b = [] then 0 else 1) <
            2 * length p + (if bw_buf b = [] then 0 else 1)"
        using False big by (simp add: bw_flush_def)
      from less [OF this] False big show ?thesis by (simp add: bw_write_fill)
    qed
  qed
qed

lemma bw_write_props:
  assumes "bw_write b p = Some b'"
  shows "bw_abs b' = bw_abs b @ p \<and> bw_size b' = bw_size b \<and> prefix (bw_out b) (bw_out b') \<and>
    (length (bw_buf b) \<le> bw_size b \<longrightarrow> length (bw_buf b') \<le> bw_size b')"
  using assms
proof (induction "2 * length p + (if bw_buf b = [] then 0 else 1)" arbitrary: b p rule: less_induct)
  case less
  show ?case
  proof (cases "bw_size b - length (bw_buf b) < length p")
    case False
    with less.prems show ?thesis by (auto simp: bw_write_fits bw_abs_def)
  next
    case big: True
    show ?thesis
    proof (cases "bw_buf b = []")
      case True
      with big less.prems show ?thesis by (auto simp: bw_write_direct bw_abs_def)
    next
      case False
      let ?n = "bw_size b - length (bw_buf b)"
      let ?b = "bw_flush (b\<lparr>bw_buf := bw_buf b @ take ?n p\<rparr>)"
      have lt: "2 * length (drop ?n p) + (if bw_buf ?b = [] then 0 else 1) <
            2 * length p + (if bw_buf b = [] then 0 else 1)"
        using False big by (simp add: bw_flush_def)
      have w: "bw_write ?b (drop ?n p) = Some b'" using less.prems False big by (simp add: bw_write_fill)
      from less.hyps [OF lt w] show ?thesis
        by (auto simp: bw_flush_def bw_abs_def prefix_def)
    qed
  qed
qed

lemma bw_write_put: "bw_write b p = Some (bw_put b p)"
  using bw_write_ex [of b p] by (auto simp: bw_put_def)

lemma bw_put_fits [simp]:
  "length p \<le> bw_size b - length (bw_buf b) \<Longrightarrow> bw_put b p = b\<lparr>bw_buf := bw_buf b @ p\<rparr>"
  by (simp add: bw_put_def bw_write_fits)

lemma bw_put_direct:
  "bw_buf b = [] \<Longrightarrow> bw_size b < length p \<Longrightarrow> bw_put b p = b\<lparr>bw_out := bw_out b @ p\<rparr>"
  by (simp add: bw_put_def bw_write_direct)

lemma bw_put_abs [simp]: "bw_abs (bw_put b p) = bw_abs b @ p"
  and bw_put_size [simp]: "bw_size (bw_put b p) = bw_size b"
  using bw_write_props [OF bw_write_put] by simp_all

lemma bw_fold_put:
  "bw_abs (fold (\<lambda>p b. bw_put b p) ps b) = bw_abs b @ concat ps"
  by (induction ps arbitrary: b) simp_all

lemma bw_fold_put_map:
  "bw_abs (fold (\<lambda>x b. bw_put b (f x)) xs b) = bw_abs b @ concat (map f xs)"
  by (induction xs arbitrary: b) simp_all

lemma bw_out_flush [simp]: "bw_out (bw_flush b) = bw_abs b"
  by (simp add: bw_flush_def bw_abs_def)

lemma bw_new_simps [simp]: "bw_size bw_new = 4096" "bw_buf bw_new = []" "bw_out bw_new = []"
  "bw_abs bw_new = []"
  by (simp_all add: bw_new_def bw_abs_def)

lemma bw_abs_new [simp]: "bw_abs bw_new = []"
  by (simp add: bw_abs_def)

lemma length_go_utoa: "n < 10 ^ k \<Longrightarrow> length (go_utoa n) \<le> max 1 k"
proof (induction n arbitrary: k rule: go_utoa.induct)
  case (1 n)
  show ?case
  proof (cases "n < 10")
    case True
    then show ?thesis by (simp add: go_utoa.simps)
  next
    case False
    then obtain k' where k: "k = Suc k'"
      using "1.prems" by (cases k) auto
    with "1.prems" have "n div 10 < 10 ^ k'" by (simp add: div_less_iff_less_mult mult.commute)
    with "1.IH" False have "length (go_utoa (n div 10)) \<le> max 1 k'" by simp
    moreover have "1 \<le> k'" using False "1.prems" k
      by (cases k') auto
    ultimately show ?thesis using False k by (simp add: go_utoa.simps [of n])
  qed
qed

lemma dec_val_go_utoa: "dec_val (go_utoa n) = n"
proof (induction n rule: go_utoa.induct)
  case (1 n)
  show ?case
  proof (cases "n < 10")
    case True
    then show ?thesis
      by (simp add: go_utoa.simps dec_val_def of_char_digit_char)
  next
    case False
    then have "dec_val (go_utoa n) = 10 * dec_val (go_utoa (n div 10)) + n mod 10"
      by (simp add: go_utoa.simps [of n] dec_val_snoc of_char_digit_char)
    with 1 False show ?thesis by simp
  qed
qed

lemma go_utoa_digits: "c \<in> set (go_utoa n) \<Longrightarrow> 48 \<le> (of_char c :: nat) \<and> (of_char c :: nat) < 58"
proof (induction n rule: go_utoa.induct)
  case (1 n)
  then show ?case
    by (cases "n < 10") (auto simp: go_utoa.simps [of n] of_char_digit_char)
qed

lemma space_notin_go_utoa: "CHR '' '' \<notin> set (go_utoa n)"
  using go_utoa_digits [of "CHR '' ''" n] by auto

end
