(* ===== verification/Process.thy ===== *)
theory Process
  imports Driver Output
begin

text \<open>
  The process: \<open>main\<close> with its output.  Standard output and standard error are
  \<open>bufio.Writer\<close>s (lines 78--83) whose flushes are deferred; \<open>match\<close> writes its
  \<open>-D\<close> diagnostic to \<open>os.Stderr\<close> directly, bypassing the buffer; \<open>fatal\<close> prints to
  \<open>os.Stderr\<close> and calls \<open>os.Exit(1)\<close>, which skips the deferred flushes; a runtime panic
  runs them and exits with status 2.  The file of standard error is the \<open>bw_out\<close> of its
  writer, to which the direct writes also go.
\<close>

section \<open>Diagnostics of the match phase\<close>

abbreviation to_stderr :: "bufw \<Rightarrow> string \<Rightarrow> bufw" where
  "to_stderr e s \<equiv> e\<lparr>bw_out := bw_out e @ s\<rparr>"

text \<open>\<open>match\<close> under \<open>-D\<close>: \<open>delta = %d\n\<close> on the fuzzy path (line 314).\<close>

definition match_dbg :: "int \<Rightarrow> string \<Rightarrow> string \<Rightarrow> string" where
  "match_dbg fz burp api =
     (if has_suffix burp api then []
      else
        let modified = replace_once burp api []
        in if length modified = length burp then []
           else ''delta = '' @ go_itoa (fuzzy_delta (length burp) (length modified)) @ [nl])"

text \<open>\<open>"\<guillemotright> matching: " + burpPath + " TO " + apiPath + "\n"\<close> (line 147), UTF-8 encoded.\<close>

definition matching_line :: "string \<Rightarrow> string \<Rightarrow> string" where
  "matching_line burp api = CHR 0xC2 # CHR 0xBB # '' matching: '' @ burp @ '' TO '' @ api @ [nl]"

text \<open>The template scan of lines 129--152 with its diagnostics.\<close>

fun scan_io :: "bool \<Rightarrow> int \<Rightarrow> string \<Rightarrow> int \<Rightarrow> string list \<Rightarrow> bufw \<Rightarrow> (bool \<times> int) \<times> bufw" where
  "scan_io c fz burp i [] e = ((False, -1), e)"
| "scan_io c fz burp i (p # ps) e =
     (let i' = i + 1 in
      if length p < 2 then scan_io c fz burp i' ps e
      else
        let e1 = (if c then to_stderr e (match_dbg fz burp p) else e)
        in if match fz burp p then ((True, i'), if c then bw_put e1 (matching_line burp p) else e1)
           else scan_io c fz burp i' ps e1)"

definition match_api_io ::
  "bool \<Rightarrow> int \<Rightarrow> nat \<Rightarrow> string \<Rightarrow> match_state \<times> bufw \<Rightarrow> nat \<times> string list \<Rightarrow> match_state \<times> bufw"
where
  "match_api_io c fz burpIndex burpPath se ap =
     (let (st, e) = se;
          (apiIndex, paths) = ap;
          st1 = (if burpIndex < 1 then st\<lparr>pathCount := pathCount st + of_nat (length paths)\<rparr> else st);
          ((found, pathIndex), e1) = scan_io c fz burpPath (-1) paths e
      in if \<not> found then (st1, e1)
         else (st1\<lparr>matches := AList.update burpIndex
                   ((case map_of (matches st1) burpIndex of None \<Rightarrow> [] | Some ps \<Rightarrow> ps) @
                    [Pair apiIndex pathIndex])
                   (matches st1)\<rparr>, e1))"

text \<open>The match phase with its diagnostics; a fatal error carries the writer at that point.\<close>

fun match_phase_io ::
  "config \<Rightarrow> (string \<Rightarrow> string option) \<Rightarrow> (string, string) gomap \<Rightarrow> string list list \<Rightarrow>
   nat \<Rightarrow> item list \<Rightarrow> match_state \<times> bufw \<Rightarrow> (error \<times> bufw) + (match_state \<times> bufw)"
where
  "match_phase_io cfg ep from apis i [] se = Inr se"
| "match_phase_io cfg ep from apis i (it # its) se =
     (case substitute cfg ep left2right from it of
        Inl e \<Rightarrow> Inl (e, snd se)
      | Inr it' \<Rightarrow> match_phase_io cfg ep from apis (Suc i) its
                    (fold (\<lambda>ap se. match_api_io (chatty cfg) (fuzzy cfg) i (path it') se ap)
                          (enumerate 0 apis) se))"

section \<open>Formatted output\<close>

text \<open>\<open>%v\<close> of a \<open>[]Pair\<close>: \<open>[{0 1} {2 3}]\<close>.\<close>

definition show_pairs :: "pair list \<Rightarrow> string" where
  "show_pairs ps =
     CHR ''['' # concat (map (\<lambda>(k, q). (if k = 0 then [] else '' '') @
                  (case q of Pair a p \<Rightarrow> CHR ''{'' # go_utoa a @ CHR '' '' # go_itoa p @ ''}''))
                 (enumerate 0 ps)) @ '']''"

text \<open>Lines 164--168 under \<open>-D\<close>: one report per matched item, in the order of that \<open>range\<close>.\<close>

definition matched_report :: "item list \<Rightarrow> (nat, pair list) gomap \<Rightarrow> nat \<Rightarrow> string" where
  "matched_report items ms burp =
     ''Matched:'' @ [nl, CHR 0x09] @ url (items ! burp) @ [nl] @ ''In API's:'' @ [nl, CHR 0x09] @
     show_pairs (case map_of ms burp of None \<Rightarrow> [] | Some ps \<Rightarrow> ps) @ [nl, nl]"

text \<open>The two \<open>fmt.Sprintln\<close> summary lines (lines 170--171).\<close>

definition summary_lines :: "nat \<Rightarrow> nat \<Rightarrow> 64 word \<Rightarrow> string list" where
  "summary_lines nmatches nitems pc =
     [go_utoa nmatches @ '' matches'' @ [nl],
      ''Checked '' @ go_utoa nitems @ '' items within '' @ go_utoa (unat pc) @ '' api paths'' @ [nl]]"

section \<open>Ending the process\<close>

text \<open>
  The message \<open>fatal\<close> prints for each error (\<open>fmt.Fprintln\<close> separates its operands by
  spaces); \<open>err_text\<close> of the world is the text of the library error that is printed last.
  For a panic, the runtime's message and the goroutine trace.
\<close>

definition arrow :: string where
  "arrow = [CHR 0xE2, CHR 0x86, CHR 0x92]"

definition fatal_msg :: "(error \<Rightarrow> string) \<Rightarrow> error \<Rightarrow> string" where
  "fatal_msg et e =
     (case e of
        NoApiFiles \<Rightarrow> ''err: must specify at least one openapi file as an argument''
      | ReplayWithoutAuth \<Rightarrow>
          ''err: if replaying, must specify or explicitly omit auth information (-auth and/or -cookie)''
      | ApiOpenFailed _ \<Rightarrow> ''err: could not open api input file '' @ arrow @ '' '' @ et e
      | ApiParseFailed name \<Rightarrow> ''err: api parse failed for \"'' @ name @ ''\" '' @ arrow @ '' '' @ et e
      | NoBurpFile \<Rightarrow> ''err: must specify a burp suite history file (-burp)''
      | BurpOpenFailed \<Rightarrow> ''err: could not open burp input file '' @ arrow @ '' '' @ et e
      | BurpParseFailed \<Rightarrow> ''err: burp parse failed '' @ arrow @ '' '' @ et e
      | NoFromDb \<Rightarrow> ''err: must specify a 'from' db file (-from)''
      | NoToDb \<Rightarrow> ''err: must specify a 'to' db file (-to)''
      | DbOpenFailed name \<Rightarrow> ''err: could not open db file \" '' @ name @ '' \" '' @ arrow @ '' '' @ et e
      | DbReadFailed name \<Rightarrow> ''err: could not read db file \" '' @ name @ '' \" '' @ arrow @ '' '' @ et e
      | UrlParseFailed p \<Rightarrow> ''err: could not parse url \" '' @ p @ '' \" '' @ arrow @ '' '' @ et e
      | JsonEncodeFailed \<Rightarrow> ''err: could not json encode item - '' @ et e
      | ReplayNotImplemented \<Rightarrow> ''replay not yet implemented''
      | SliceOutOfRange lo n \<Rightarrow>
          ''panic: runtime error: slice bounds out of range ['' @ go_utoa lo @ '':'' @ go_utoa n @ '']'' @ et e
      | IndexOutOfRange i n \<Rightarrow>
          ''panic: runtime error: index out of range ['' @ go_utoa i @ ''] with length '' @ go_utoa n @ et e)
     @ [nl]"

definition is_panic :: "error \<Rightarrow> bool" where
  "is_panic e \<longleftrightarrow> (case e of SliceOutOfRange _ _ \<Rightarrow> True | IndexOutOfRange _ _ \<Rightarrow> True | _ \<Rightarrow> False)"

record exit_status =
  ex_code :: nat
  ex_stdout :: string
  ex_stderr :: string

text \<open>
  A fatal error: the message goes to the file directly and \<open>os.Exit(1)\<close> drops both
  buffers.  A panic: the deferred \<open>out.Flush()\<close> and \<open>stderr.Flush()\<close> run, then the
  runtime prints its message; status 2.  A normal return runs the deferred flushes.
\<close>

definition abort :: "(error \<Rightarrow> string) \<Rightarrow> bufw \<Rightarrow> bufw \<Rightarrow> error \<Rightarrow> exit_status" where
  "abort et ob eb err =
     (if is_panic err then
        \<lparr>ex_code = 2, ex_stdout = bw_out (bw_flush ob), ex_stderr = bw_out (bw_flush eb) @ fatal_msg et err\<rparr>
      else \<lparr>ex_code = 1, ex_stdout = bw_out ob, ex_stderr = bw_out eb @ fatal_msg et err\<rparr>)"

definition finish :: "bufw \<Rightarrow> bufw \<Rightarrow> exit_status" where
  "finish ob eb = \<lparr>ex_code = 0, ex_stdout = bw_out (bw_flush ob), ex_stderr = bw_out (bw_flush eb)\<rparr>"

section \<open>The process\<close>

definition main_io :: "config \<Rightarrow> string list \<Rightarrow> world \<Rightarrow> (nat list \<Rightarrow> nat list) \<Rightarrow> exit_status" where
  "main_io cfg args w diag_order =
     (case load_inputs cfg args w of
        Inl err \<Rightarrow> abort (err_text w) bw_new bw_new err
      | Inr (apis, items, from, to) \<Rightarrow>
          (case match_phase_io cfg (escaped_path w) from apis 0 items (init_state, bw_new) of
             Inl (err, e) \<Rightarrow> abort (err_text w) bw_new e err
           | Inr (st, e1) \<Rightarrow>
               let e2 = (if chatty cfg
                         then fold (\<lambda>burp e. bw_put e (matched_report items (matches st) burp))
                                (diag_order (map fst (matches st))) e1
                         else e1);
                   e3 = fold (\<lambda>l e. bw_put e l)
                          (summary_lines (length (matches st)) (length items) (pathCount st)) e2
               in case substitution_phase cfg (escaped_path w) (compose from to) items
                         (key_order w (map fst (matches st))) [] of
                    Inl err \<Rightarrow> abort (err_text w) bw_new e3 err
                  | Inr future \<Rightarrow>
                      (if emitJSON cfg then
                         (case json_encode w future of
                            None \<Rightarrow> abort (err_text w) bw_new e3 JsonEncodeFailed
                          | Some j \<Rightarrow>
                              if doReplay cfg then abort (err_text w) (bw_put bw_new j) e3 ReplayNotImplemented
                              else finish (bw_put bw_new j) e3)
                       else if doReplay cfg then abort (err_text w) bw_new e3 ReplayNotImplemented
                       else finish bw_new e3)))"

section \<open>Example inputs\<close>

text \<open>The request of the specification's stripping example, matched and stripped under \<open>-omitauth\<close>.\<close>

definition example_strip_world :: world where
  "example_strip_world =
     \<lparr>api_file = (\<lambda>_. Inr [''/api/health'']),
      burp_file = (\<lambda>_ _. Inr example_strip_items),
      db_file = (\<lambda>_. Inr []),
      escaped_path = plain_escaped_path,
      key_order = id,
      json_encode = (\<lambda>its. Some (concat (map url its))),
      err_text = (\<lambda>_. [nl] @ ''goroutine 1 [running]:'')\<rparr>"

section \<open>Lemmas\<close>

lemma scan_io_fst: "fst (scan_io c fz burp i ps e) = scan_paths fz burp i ps"
  by (induction c fz burp i ps e rule: scan_io.induct) (simp_all add: Let_def)

lemma scan_io_quiet: "snd (scan_io False fz burp i ps e) = e"
  by (induction "False" fz burp i ps e rule: scan_io.induct) (simp_all add: Let_def)

lemma match_api_io_fst: "fst (match_api_io c fz b p (st, e) ap) = match_api fz b p st ap"
proof -
  obtain a ps where ap: "ap = (a, ps)" by (cases ap)
  obtain r e1 where sc: "scan_io c fz p (-1) ps e = (r, e1)" by (cases "scan_io c fz p (-1) ps e")
  obtain found pi where r: "r = (found, pi)" by (cases r)
  have "find_path fz p ps = (found, pi)" using scan_io_fst [of c fz p "-1" ps e] sc r by (simp add: find_path_def)
  then show ?thesis using ap sc r by (simp add: match_api_io_def match_api_def Let_def)
qed

lemma match_api_io_quiet: "snd (match_api_io False fz b p (st, e) ap) = e"
proof -
  obtain a ps where ap: "ap = (a, ps)" by (cases ap)
  obtain r e1 where sc: "scan_io False fz p (-1) ps e = (r, e1)" by (cases "scan_io False fz p (-1) ps e")
  obtain found pi where r: "r = (found, pi)" by (cases r)
  have "e1 = e" using scan_io_quiet [of fz p "-1" ps e] sc by simp
  then show ?thesis using ap sc r by (simp add: match_api_io_def Let_def)
qed

lemma fold_match_api_io_fst:
  "fst (fold (\<lambda>ap se. match_api_io c fz i p se ap) aps (st, e)) = fold (\<lambda>ap st. match_api fz i p st ap) aps st"
proof (induction aps arbitrary: st e)
  case Nil
  then show ?case by simp
next
  case (Cons ap aps)
  obtain st' e' where m: "match_api_io c fz i p (st, e) ap = (st', e')" by fastforce
  have "st' = match_api fz i p st ap" using match_api_io_fst [of c fz i p st e ap] m by simp
  with Cons.IH [of st' e'] m show ?case by simp
qed

lemma fold_match_api_io_quiet:
  "snd (fold (\<lambda>ap se. match_api_io False fz i p se ap) aps (st, e)) = e"
proof (induction aps arbitrary: st)
  case Nil
  then show ?case by simp
next
  case (Cons ap aps)
  obtain st' e' where m: "match_api_io False fz i p (st, e) ap = (st', e')" by fastforce
  have "e' = e" using match_api_io_quiet [of fz i p st e ap] m by simp
  with Cons.IH [of st'] m show ?case by simp
qed

lemma match_phase_io_proj:
  "map_sum fst fst (match_phase_io cfg ep from apis i its (st, e)) = match_phase cfg ep from apis i its st"
proof (induction its arbitrary: i st e)
  case Nil
  then show ?case by simp
next
  case (Cons it its)
  show ?case
  proof (cases "substitute cfg ep left2right from it")
    case (Inl err)
    then show ?thesis by simp
  next
    case (Inr it')
    let ?f = "fold (\<lambda>ap se. match_api_io (chatty cfg) (fuzzy cfg) i (path it') se ap) (enumerate 0 apis) (st, e)"
    have "?f = (fst ?f, snd ?f)" by simp
    with Cons.IH [of "Suc i" "fst ?f" "snd ?f"] Inr show ?thesis
      by (simp add: fold_match_api_io_fst)
  qed
qed

lemma match_phase_io_quiet:
  "\<not> chatty cfg \<Longrightarrow>
   match_phase_io cfg ep from apis i its (st, e) =
   map_sum (\<lambda>err. (err, e)) (\<lambda>st'. (st', e)) (match_phase cfg ep from apis i its st)"
proof (induction its arbitrary: i st)
  case Nil
  then show ?case by simp
next
  case (Cons it its)
  show ?case
  proof (cases "substitute cfg ep left2right from it")
    case (Inl err)
    then show ?thesis by simp
  next
    case (Inr it')
    let ?f = "fold (\<lambda>ap se. match_api_io False (fuzzy cfg) i (path it') se ap) (enumerate 0 apis) (st, e)"
    have "?f = (fst ?f, e)" using fold_match_api_io_quiet [of "fuzzy cfg" i "path it'" "enumerate 0 apis" st e]
      by (metis prod.collapse)
    with Cons.IH [of "Suc i" "fst ?f"] Cons.prems Inr show ?thesis
      by (simp add: fold_match_api_io_fst)
  qed
qed

lemma main_io_quiet:
  assumes "\<not> chatty cfg"
  shows "main_io cfg args w d =
    (case load_inputs cfg args w of
       Inl err \<Rightarrow> abort (err_text w) bw_new bw_new err
     | Inr (apis, items, from, to) \<Rightarrow>
         (case match_phase cfg (escaped_path w) from apis 0 items init_state of
            Inl err \<Rightarrow> abort (err_text w) bw_new bw_new err
          | Inr st \<Rightarrow>
              let e3 = fold (\<lambda>l e. bw_put e l)
                         (summary_lines (length (matches st)) (length items) (pathCount st)) bw_new
              in case substitution_phase cfg (escaped_path w) (compose from to) items
                        (key_order w (map fst (matches st))) [] of
                   Inl err \<Rightarrow> abort (err_text w) bw_new e3 err
                 | Inr future \<Rightarrow>
                     (if emitJSON cfg then
                        (case json_encode w future of
                           None \<Rightarrow> abort (err_text w) bw_new e3 JsonEncodeFailed
                         | Some j \<Rightarrow>
                             if doReplay cfg then abort (err_text w) (bw_put bw_new j) e3 ReplayNotImplemented
                             else finish (bw_put bw_new j) e3)
                      else if doReplay cfg then abort (err_text w) bw_new e3 ReplayNotImplemented
                      else finish bw_new e3)))"
  using assms
  by (simp add: main_io_def match_phase_io_quiet split: sum.split prod.split)

lemma abort_code_msg:
  "ex_code (abort et ob eb err) = (if is_panic err then 2 else 1) \<and>
   suffix (fatal_msg et err) (ex_stderr (abort et ob eb err))"
  by (auto simp: abort_def suffix_def)

lemma run_Inl_abort:
  assumes "run cfg args w = Inl err"
  shows "\<exists>ob eb. main_io cfg args w d = abort (err_text w) ob eb err"
proof (cases "load_inputs cfg args w")
  case (Inl e)
  with assms show ?thesis by (auto simp: main_io_def run_def)
next
  case (Inr inp)
  obtain apis items fdb tdb where inp: "inp = (apis, items, fdb, tdb)" by (cases inp) auto
  let ?m = "match_phase_io cfg (escaped_path w) fdb apis 0 items (init_state, bw_new)"
  have proj: "map_sum fst fst ?m = match_phase cfg (escaped_path w) fdb apis 0 items init_state"
    by (rule match_phase_io_proj)
  show ?thesis
  proof (cases ?m)
    case (Inl r)
    obtain e b where r: "r = (e, b)" by (cases r)
    with Inl proj have "match_phase cfg (escaped_path w) fdb apis 0 items init_state = Inl e" by simp
    with assms \<open>load_inputs cfg args w = Inr inp\<close> inp have "err = e" by (simp add: run_def)
    with Inl r \<open>load_inputs cfg args w = Inr inp\<close> inp show ?thesis by (auto simp: main_io_def)
  next
    case (Inr r)
    obtain st e1 where r: "r = (st, e1)" by (cases r)
    with Inr proj have "match_phase cfg (escaped_path w) fdb apis 0 items init_state = Inr st" by simp
    with assms \<open>load_inputs cfg args w = Inr inp\<close> inp Inr r show ?thesis
      by (auto simp: main_io_def run_def Let_def split: sum.splits option.splits if_splits) blast+
  qed
qed

lemma run_Inr_finish:
  assumes "run cfg args w = Inr out"
  obtains apis items fdb tdb e where "load_inputs cfg args w = Inr (apis, items, fdb, tdb)"
    and "main_io cfg args w d =
      finish (case out_json out of None \<Rightarrow> bw_new | Some fut \<Rightarrow> bw_put bw_new (the (json_encode w fut)))
        (fold (\<lambda>l e. bw_put e l) (summary_lines (length (out_matches out)) (length items) (out_pathCount out))
           (if chatty cfg then fold (\<lambda>burp e. bw_put e (matched_report items (out_matches out) burp))
                                  (d (map fst (out_matches out))) e
            else e))"
proof -
  obtain apis items fdb tdb where inp: "load_inputs cfg args w = Inr (apis, items, fdb, tdb)"
    using assms by (cases "load_inputs cfg args w") (auto simp: run_def)
  obtain st where m: "match_phase cfg (escaped_path w) fdb apis 0 items init_state = Inr st"
    using assms inp by (cases "match_phase cfg (escaped_path w) fdb apis 0 items init_state") (auto simp: run_def)
  obtain future where s: "substitution_phase cfg (escaped_path w) (compose fdb tdb) items
      (key_order w (map fst (matches st))) [] = Inr future"
    using assms inp m
    by (cases "substitution_phase cfg (escaped_path w) (compose fdb tdb) items (key_order w (map fst (matches st))) []")
       (auto simp: run_def)
  from assms inp m s have r: "\<not> doReplay cfg" "emitJSON cfg \<longrightarrow> json_encode w future \<noteq> None"
    and out: "out = \<lparr>out_matches = matches st, out_pathCount = pathCount st, out_future = future,
              out_json = (if emitJSON cfg then Some future else None)\<rparr>"
    by (auto simp: run_def split: if_splits)
  obtain e1 where mio: "match_phase_io cfg (escaped_path w) fdb apis 0 items (init_state, bw_new) = Inr (st, e1)"
    using match_phase_io_proj [of cfg "escaped_path w" fdb apis 0 items init_state bw_new] m
    by (cases "match_phase_io cfg (escaped_path w) fdb apis 0 items (init_state, bw_new)") auto
  have "main_io cfg args w d =
      finish (case out_json out of None \<Rightarrow> bw_new | Some fut \<Rightarrow> bw_put bw_new (the (json_encode w fut)))
        (fold (\<lambda>l e. bw_put e l) (summary_lines (length (out_matches out)) (length items) (out_pathCount out))
           (if chatty cfg then fold (\<lambda>burp e. bw_put e (matched_report items (out_matches out) burp))
                                  (d (map fst (out_matches out))) e1
            else e1))"
    using inp mio s r out by (auto simp: main_io_def Let_def split: option.split)
  with inp show ?thesis by (rule that)
qed

lemma fold_put_fits:
  "length (concat ls) \<le> bw_size b - length (bw_buf b) \<Longrightarrow>
   fold (\<lambda>l e. bw_put e l) ls b = b\<lparr>bw_buf := bw_buf b @ concat ls\<rparr>"
  by (induction ls arbitrary: b) auto

lemma length_summary_lines:
  assumes "nmatches < 2 ^ 63" and "nitems < 2 ^ 63"
  shows "length (concat (summary_lines nmatches nitems pc)) \<le> 4096"
proof -
  have "(2::nat) ^ 63 < 10 ^ 19" and "(2::nat) ^ 64 < 10 ^ 20" by simp_all
  with assms have "length (go_utoa nmatches) \<le> 19" "length (go_utoa nitems) \<le> 19"
    using length_go_utoa [of nmatches 19] length_go_utoa [of nitems 19] by simp_all
  moreover have "unat pc < 10 ^ 20"
  proof -
    have "unat pc < 2 ^ LENGTH(64)" by (rule unsigned_less)
    then show ?thesis by simp
  qed
  then have "length (go_utoa (unat pc)) \<le> 20"
    using length_go_utoa [of "unat pc" 20] by simp
  ultimately show ?thesis by (simp add: summary_lines_def)
qed

lemma length_matches_le:
  assumes "match_phase cfg ep from apis 0 items init_state = Inr st"
  shows "length (matches st) \<le> length items"
proof -
  from match_phase_Inr [OF assms] have
    d: "distinct (map fst (matches st))" and k: "\<forall>k \<in> fst ` set (matches st). k < length items"
    by (simp_all add: init_state_def)
  have "length (matches st) = card (set (map fst (matches st)))"
    using d by (metis distinct_card length_map)
  also have "\<dots> \<le> card {..<length items}"
    using k by (intro card_mono) auto
  finally show ?thesis by simp
qed

lemma main_io_example_inputs:
  "load_inputs example_config [''api.json''] example_world =
     Inr ([[''/'', ''/api/health'', ''/widgets/{widgetId}/info'']], example_items,
          [(''widgetId'', ''abc-123'')], [(''widgetId'', ''zzz-999'')])"
  "load_inputs (example_config\<lparr>doReplay := True\<rparr>) [''api.json''] example_world =
     Inr ([[''/'', ''/api/health'', ''/widgets/{widgetId}/info'']], example_items,
          [(''widgetId'', ''abc-123'')], [(''widgetId'', ''zzz-999'')])"
  "load_inputs (example_config\<lparr>omitAuth := True\<rparr>) [''api.json''] example_strip_world =
     Inr ([[''/api/health'']], example_strip_items, [], [])"
  "load_inputs (example_config\<lparr>chatty := True\<rparr>) [''api.json''] example_world =
     Inr ([[''/'', ''/api/health'', ''/widgets/{widgetId}/info'']], example_items,
          [(''widgetId'', ''abc-123'')], [(''widgetId'', ''zzz-999'')])"
  by (simp_all add: load_inputs_def example_config_sel example_world_sel example_strip_world_def)

lemma example_replay_phases:
  "match_phase (example_config\<lparr>doReplay := True\<rparr>) plain_escaped_path [(''widgetId'', ''abc-123'')]
     [[''/'', ''/api/health'', ''/widgets/{widgetId}/info'']] 0 example_items init_state =
     Inr \<lparr>pathCount = 3, matches = [(0, [Pair 0 1])]\<rparr>"
  "substitution_phase (example_config\<lparr>doReplay := True\<rparr>) plain_escaped_path
     [(''abc-123'', ''zzz-999'')] example_items [0] [] = Inr example_future"
  "compose [(''widgetId'', ''abc-123'')] [(''widgetId'', ''zzz-999'')] = [(''abc-123'', ''zzz-999'')]"
  by (simp_all add: example_config_sel example_items_def init_state_def substitute_def example_future_def
      plain_escaped_path_def rebuild_path_def left2right_def replace_all_Cons replace_all_Nil has_prefix_def
      match_api_def find_path_def match_def has_suffix_def convert_item_def convert_auth_def subLine_def
      join_lines_def compose_def Let_def)

lemma example_debug_phases:
  "match_phase (example_config\<lparr>chatty := True\<rparr>) plain_escaped_path [(''widgetId'', ''abc-123'')]
     [[''/'', ''/api/health'', ''/widgets/{widgetId}/info'']] 0 example_items init_state =
     Inr \<lparr>pathCount = 3, matches = [(0, [Pair 0 1])]\<rparr>"
  "substitution_phase (example_config\<lparr>chatty := True\<rparr>) plain_escaped_path
     [(''abc-123'', ''zzz-999'')] example_items [0] [] = Inr example_future"
  "compose [(''widgetId'', ''abc-123'')] [(''widgetId'', ''zzz-999'')] = [(''abc-123'', ''zzz-999'')]"
  by (simp_all add: example_config_sel example_items_def init_state_def substitute_def example_future_def
      plain_escaped_path_def rebuild_path_def left2right_def replace_all_Cons replace_all_Nil has_prefix_def
      match_api_def find_path_def match_def has_suffix_def convert_item_def convert_auth_def subLine_def
      join_lines_def compose_def Let_def)

lemma example_debug_run:
  "run (example_config\<lparr>chatty := True\<rparr>) [''api.json''] example_world =
   Inr \<lparr>out_matches = [(0, [Pair 0 1])], out_pathCount = 3, out_future = example_future,
        out_json = Some example_future\<rparr>"
  using main_io_example_inputs(4) example_debug_phases
  by (simp add: run_def example_config_sel example_world_sel del: substitution_phase.simps)

section \<open>Properties of the process\<close>

text \<open>
  C13: without \<open>-D\<close>, a successful run exits with status 0; standard output holds the
  JSON encoding of the correlated items under \<open>-json\<close> and nothing otherwise, and standard
  error holds exactly the two summary lines.
\<close>

theorem main_io_success:
  assumes "\<not> chatty cfg" and "run cfg args w = Inr out"
  shows "\<exists>apis items fdb tdb. load_inputs cfg args w = Inr (apis, items, fdb, tdb) \<and>
    main_io cfg args w d =
      \<lparr>ex_code = 0,
       ex_stdout = (case out_json out of None \<Rightarrow> [] | Some fut \<Rightarrow> the (json_encode w fut)),
       ex_stderr = concat (summary_lines (length (out_matches out)) (length items) (out_pathCount out))\<rparr>"
proof -
  obtain apis items fdb tdb where inp: "load_inputs cfg args w = Inr (apis, items, fdb, tdb)"
    using assms(2) by (cases "load_inputs cfg args w") (auto simp: run_def)
  obtain st where m: "match_phase cfg (escaped_path w) fdb apis 0 items init_state = Inr st"
    using assms(2) inp by (cases "match_phase cfg (escaped_path w) fdb apis 0 items init_state") (auto simp: run_def)
  obtain future where s: "substitution_phase cfg (escaped_path w) (compose fdb tdb) items
      (key_order w (map fst (matches st))) [] = Inr future"
    using assms(2) inp m
    by (cases "substitution_phase cfg (escaped_path w) (compose fdb tdb) items (key_order w (map fst (matches st))) []")
       (auto simp: run_def)
  from assms(2) inp m s have r: "\<not> doReplay cfg" "emitJSON cfg \<longrightarrow> json_encode w future \<noteq> None"
    and out: "out = \<lparr>out_matches = matches st, out_pathCount = pathCount st, out_future = future,
              out_json = (if emitJSON cfg then Some future else None)\<rparr>"
    by (auto simp: run_def split: if_splits)
  have "main_io cfg args w d =
      \<lparr>ex_code = 0,
       ex_stdout = (if emitJSON cfg then the (json_encode w future) else []),
       ex_stderr = concat (summary_lines (length (matches st)) (length items) (pathCount st))\<rparr>"
    using assms(1) inp m s r
    by (auto simp: main_io_quiet finish_def bw_fold_put split: option.split)
  with inp out show ?thesis by auto
qed

text \<open>
  C23: with or without \<open>-D\<close>, a run that fails exits with status 1 after a fatal error
  and with status 2 after a panic, and standard error ends with the message of the failure.
\<close>

theorem main_io_error_exit:
  assumes "run cfg args w = Inl err"
  shows "ex_code (main_io cfg args w d) = (if is_panic err then 2 else 1) \<and>
    suffix (fatal_msg (err_text w) err) (ex_stderr (main_io cfg args w d))"
  using run_Inl_abort [OF assms, of d] abort_code_msg by auto

text \<open>
  C14: with \<open>-json\<close> and \<open>-replay\<close>, the JSON is encoded into the buffer of standard
  output and the run then ends in \<open>fatal\<close>, whose \<open>os.Exit\<close> skips the deferred flushes:
  standard output receives the JSON only when it is longer than the 4096-byte buffer, and
  standard error receives only the fatal message, not the summary lines.
\<close>

theorem main_io_replay_loses_output:
  assumes "\<not> chatty cfg" and "emitJSON cfg" and "doReplay cfg"
    and "load_inputs cfg args w = Inr (apis, items, fdb, tdb)"
    and "match_phase cfg (escaped_path w) fdb apis 0 items init_state = Inr st"
    and "substitution_phase cfg (escaped_path w) (compose fdb tdb) items
           (key_order w (map fst (matches st))) [] = Inr future"
    and "json_encode w future = Some j"
    and "length items < 2 ^ 63"
  shows "main_io cfg args w d =
    \<lparr>ex_code = 1, ex_stdout = (if 4096 < length j then j else []),
     ex_stderr = fatal_msg (err_text w) ReplayNotImplemented\<rparr>"
proof -
  let ?ls = "summary_lines (length (matches st)) (length items) (pathCount st)"
  have "length (matches st) < 2 ^ 63" using length_matches_le [OF assms(5)] assms(8) by simp
  then have "length (concat ?ls) \<le> 4096" using length_summary_lines assms(8) by blast
  then have e3: "bw_out (fold (\<lambda>l e. bw_put e l) ?ls bw_new) = []"
    by (simp add: fold_put_fits)
  have "bw_out (bw_put bw_new j) = (if 4096 < length j then j else [])"
    by (simp add: bw_put_direct)
  with e3 assms show ?thesis
    by (simp add: main_io_quiet abort_def is_panic_def)
qed

text \<open>
  C24: a panic of the substitution phase (the slice panic of \<open>stripLines\<close>) runs the
  deferred flushes: the process exits with status 2, and standard error holds the summary
  lines followed by the panic message.
\<close>

theorem main_io_panic_flushes:
  assumes "\<not> chatty cfg"
    and "load_inputs cfg args w = Inr (apis, items, fdb, tdb)"
    and "match_phase cfg (escaped_path w) fdb apis 0 items init_state = Inr st"
    and "substitution_phase cfg (escaped_path w) (compose fdb tdb) items
           (key_order w (map fst (matches st))) [] = Inl err"
    and "is_panic err"
  shows "main_io cfg args w d =
    \<lparr>ex_code = 2, ex_stdout = [],
     ex_stderr = concat (summary_lines (length (matches st)) (length items) (pathCount st)) @
                 fatal_msg (err_text w) err\<rparr>"
  using assms by (simp add: main_io_quiet abort_def bw_fold_put)

text \<open>
  C17: the match phase with its \<open>-D\<close> diagnostics computes what the match phase
  computes (the same match record and path count, or the same fatal error), and without
  \<open>-D\<close> it leaves standard error untouched.
\<close>

theorem match_phase_io_equiv:
  "map_sum fst fst (match_phase_io cfg ep from apis i its (st, e)) = match_phase cfg ep from apis i its st \<and>
   (\<not> chatty cfg \<longrightarrow>
      match_phase_io cfg ep from apis i its (st, e) =
      map_sum (\<lambda>err. (err, e)) (\<lambda>st'. (st', e)) (match_phase cfg ep from apis i its st))"
  by (simp add: match_phase_io_proj match_phase_io_quiet)

text \<open>
  C27: the summary lines read back: the first starts with the decimal number of matched
  items, the second holds the number of items and the path count after its fixed words.
\<close>

theorem summary_lines_roundtrip:
  "dec_val (takeWhile (\<lambda>c. c \<noteq> CHR '' '') (summary_lines a b pc ! 0)) = a \<and>
   dec_val (takeWhile (\<lambda>c. c \<noteq> CHR '' '') (drop 8 (summary_lines a b pc ! 1))) = b \<and>
   dec_val (takeWhile (\<lambda>c. c \<noteq> CHR '' '') (drop (22 + length (go_utoa b)) (summary_lines a b pc ! 1))) = unat pc"
proof -
  have tw: "takeWhile (\<lambda>c. c \<noteq> CHR '' '') (go_utoa n @ CHR '' '' # r) = go_utoa n" for n r
  proof -
    have "\<And>x. x \<in> set (go_utoa n) \<Longrightarrow> x \<noteq> CHR '' ''"
      using space_notin_go_utoa [of n] by blast
    then show ?thesis by (simp add: takeWhile_append2)
  qed
  have d: "drop (22 + length xs) (''Checked '' @ xs @ '' items within '' @ r) = r" for xs r
  proof -
    have "''Checked '' @ xs @ '' items within '' @ r = (''Checked '' @ xs @ '' items within '') @ r"
      by simp
    moreover have "length (''Checked '' @ xs @ '' items within '') = 22 + length xs" by simp
    ultimately show ?thesis by (metis append_eq_conv_conj)
  qed
  have l1: "summary_lines a b pc ! 1 =
      ''Checked '' @ go_utoa b @ '' items within '' @ go_utoa (unat pc) @ '' api paths'' @ [nl]"
    by (simp add: summary_lines_def)
  show ?thesis
    unfolding l1 d using tw [of a] tw [of b] tw [of "unat pc"]
    by (simp add: summary_lines_def dec_val_go_utoa)
qed

text \<open>
  C15: every byte the program writes reaches its file on a normal return, with or without
  \<open>-D\<close>: a successful run exits with status 0, standard output holds the JSON under
  \<open>-json\<close>, and standard error ends with the \<open>Matched\<close> report of every matched item
  under \<open>-D\<close>, in the order the map is visited, followed by the two summary lines.
\<close>

theorem main_io_delivers:
  assumes "run cfg args w = Inr out"
  shows "\<exists>apis items fdb tdb. load_inputs cfg args w = Inr (apis, items, fdb, tdb) \<and>
    ex_code (main_io cfg args w d) = 0 \<and>
    ex_stdout (main_io cfg args w d) = (case out_json out of None \<Rightarrow> [] | Some fut \<Rightarrow> the (json_encode w fut)) \<and>
    suffix (concat (map (matched_report items (out_matches out))
                        (if chatty cfg then d (map fst (out_matches out)) else [])) @
            concat (summary_lines (length (out_matches out)) (length items) (out_pathCount out)))
           (ex_stderr (main_io cfg args w d))"
proof -
  obtain apis items fdb tdb e where inp: "load_inputs cfg args w = Inr (apis, items, fdb, tdb)"
    and m: "main_io cfg args w d =
      finish (case out_json out of None \<Rightarrow> bw_new | Some fut \<Rightarrow> bw_put bw_new (the (json_encode w fut)))
        (fold (\<lambda>l e. bw_put e l) (summary_lines (length (out_matches out)) (length items) (out_pathCount out))
           (if chatty cfg then fold (\<lambda>burp e. bw_put e (matched_report items (out_matches out) burp))
                                  (d (map fst (out_matches out))) e
            else e))"
    using run_Inr_finish [OF assms] by blast
  show ?thesis
    using inp by (cases "chatty cfg")
      (auto simp: m finish_def bw_fold_put bw_fold_put_map suffix_def split: option.split)
qed

section \<open>Witnesses\<close>

theorem main_io_success_witness:
  "main_io example_config [''api.json''] example_world id =
   \<lparr>ex_code = 0, ex_stdout = ''http://h/gw/api/health?id=abc-123'',
    ex_stderr = ''1 matches'' @ [nl] @ ''Checked 2 items within 3 api paths'' @ [nl]\<rparr>"
proof -
  have "\<not> chatty example_config" by (simp add: example_config_sel)
  from main_io_success [OF this example_run, of id] main_io_example_inputs(1)
  show ?thesis
    by (simp add: example_future_def example_items_def example_world_sel summary_lines_def
        go_utoa.simps digit_char_def)
qed

theorem main_io_error_exit_witness:
  "ex_code (main_io (example_config\<lparr>doReplay := True\<rparr>) [''api.json''] example_world id) = 1 \<and>
   suffix (''replay not yet implemented'' @ [nl])
     (ex_stderr (main_io (example_config\<lparr>doReplay := True\<rparr>) [''api.json''] example_world id))"
proof -
  have c: "\<not> chatty (example_config\<lparr>doReplay := True\<rparr>)" by (simp add: example_config_sel)
  have r: "run (example_config\<lparr>doReplay := True\<rparr>) [''api.json''] example_world = Inl ReplayNotImplemented"
    using main_io_example_inputs(2) example_replay_phases
    by (simp add: run_def example_config_sel example_world_sel example_future_def del: substitution_phase.simps)
  from main_io_error_exit [OF r, of id] show ?thesis
    by (simp add: is_panic_def fatal_msg_def)
qed

theorem main_io_replay_loses_output_witness:
  "main_io (example_config\<lparr>doReplay := True\<rparr>) [''api.json''] example_world id =
   \<lparr>ex_code = 1, ex_stdout = [], ex_stderr = ''replay not yet implemented'' @ [nl]\<rparr>"
proof -
  have h: "\<not> chatty (example_config\<lparr>doReplay := True\<rparr>)" "emitJSON (example_config\<lparr>doReplay := True\<rparr>)"
    "doReplay (example_config\<lparr>doReplay := True\<rparr>)" by (simp_all add: example_config_sel)
  have m: "match_phase (example_config\<lparr>doReplay := True\<rparr>) (escaped_path example_world) [(''widgetId'', ''abc-123'')]
     [[''/'', ''/api/health'', ''/widgets/{widgetId}/info'']] 0 example_items init_state =
     Inr \<lparr>pathCount = 3, matches = [(0, [Pair 0 1])]\<rparr>"
    using example_replay_phases(1) by (simp add: example_world_sel)
  have s: "substitution_phase (example_config\<lparr>doReplay := True\<rparr>) (escaped_path example_world)
     (compose [(''widgetId'', ''abc-123'')] [(''widgetId'', ''zzz-999'')]) example_items
     (key_order example_world (map fst (matches \<lparr>pathCount = 3, matches = [(0::nat, [Pair 0 1])]\<rparr>))) [] =
     Inr example_future"
    using example_replay_phases(2,3) by (simp add: example_world_sel)
  have j: "json_encode example_world example_future = Some ''http://h/gw/api/health?id=abc-123''"
    by (simp add: example_world_sel example_future_def)
  have n: "length example_items < 2 ^ 63" by (simp add: example_items_def)
  from main_io_replay_loses_output [OF h main_io_example_inputs(2) m s j n, of id]
  show ?thesis by (simp add: fatal_msg_def)
qed

theorem main_io_panic_flushes_witness:
  "main_io (example_config\<lparr>omitAuth := True\<rparr>) [''api.json''] example_strip_world id =
   \<lparr>ex_code = 2, ex_stdout = [],
    ex_stderr = ''1 matches'' @ [nl] @ ''Checked 1 items within 1 api paths'' @ [nl] @
                ''panic: runtime error: slice bounds out of range [4:3]'' @ [nl] @ ''goroutine 1 [running]:'' @ [nl]\<rparr>"
proof -
  have c: "\<not> chatty (example_config\<lparr>omitAuth := True\<rparr>)" by (simp add: example_config_sel)
  have m: "match_phase (example_config\<lparr>omitAuth := True\<rparr>) (escaped_path example_strip_world) []
     [[''/api/health'']] 0 example_strip_items init_state = Inr \<lparr>pathCount = 1, matches = [(0, [Pair 0 0])]\<rparr>"
    using example_strip_match_phase by (simp add: example_strip_world_def)
  have s: "substitution_phase (example_config\<lparr>omitAuth := True\<rparr>) (escaped_path example_strip_world)
     (compose [] []) example_strip_items
     (key_order example_strip_world (map fst (matches \<lparr>pathCount = 1, matches = [(0::nat, [Pair 0 0])]\<rparr>))) [] =
     Inl (SliceOutOfRange 4 3)"
    using example_strip_substitution_phase by (simp add: example_strip_world_def compose_def)
  have p: "is_panic (SliceOutOfRange 4 3)" by (simp add: is_panic_def)
  from main_io_panic_flushes [OF c main_io_example_inputs(3) m s p, of id]
  show ?thesis
    by (simp add: summary_lines_def fatal_msg_def example_strip_items_def example_strip_world_def
        go_utoa.simps digit_char_def)
qed

theorem match_phase_io_equiv_witness:
  "match_phase_io example_config plain_escaped_path [(''widgetId'', ''abc-123'')]
     [[''/'', ''/api/health'', ''/widgets/{widgetId}/info'']] 0 example_items (init_state, bw_new) =
   Inr (\<lparr>pathCount = 3, matches = [(0, [Pair 0 1])]\<rparr>, bw_new)"
proof -
  have "\<not> chatty example_config" by (simp add: example_config_sel)
  with match_phase_io_equiv [of example_config plain_escaped_path "[(''widgetId'', ''abc-123'')]"
      "[[''/'', ''/api/health'', ''/widgets/{widgetId}/info'']]" 0 example_items init_state bw_new]
  show ?thesis by (simp add: example_match_phase)
qed

theorem main_io_delivers_witness:
  "ex_code (main_io (example_config\<lparr>chatty := True\<rparr>) [''api.json''] example_world id) = 0 \<and>
   ex_stdout (main_io (example_config\<lparr>chatty := True\<rparr>) [''api.json''] example_world id) =
     ''http://h/gw/api/health?id=abc-123'' \<and>
   suffix (''Matched:'' @ [nl, CHR 0x09] @ ''http://h/gw/api/health?id=abc-123'' @ [nl] @
           ''In API's:'' @ [nl, CHR 0x09] @ ''[{0 1}]'' @ [nl, nl] @
           ''1 matches'' @ [nl] @ ''Checked 2 items within 3 api paths'' @ [nl])
     (ex_stderr (main_io (example_config\<lparr>chatty := True\<rparr>) [''api.json''] example_world id))"
proof -
  from main_io_delivers [OF example_debug_run, of id] main_io_example_inputs(4)
  show ?thesis
    by (simp add: example_future_def example_items_def example_world_sel summary_lines_def
        example_config_sel matched_report_def show_pairs_def go_itoa_def go_utoa.simps digit_char_def)
qed

end
