(* ===== verification/Spec2Isabelle.thy ===== *)
theory Spec2Isabelle
  imports Prelude Float64 Matcher Substitution Headers KVLoader Driver Output Process
begin

text \<open>
  \<^bold>\<open>A verification development of correlator\<close> (\<open>src/correlator.go\<close>, 443 lines of Go).

  \<^emph>\<open>The program.\<close>  \<open>correlator\<close> reads one or more OpenAPI specifications (the
  arguments), a Burp Suite history (\<open>-burp\<close>) and two identifier databases (\<open>-from\<close>,
  \<open>-to\<close>, loaded by \<open>ingestDb\<close>).  Its \<open>main\<close> (lines 44--236) checks the flags, loads
  the inputs, then runs two phases.  In the match phase every Burp item is normalised with
  \<open>substitute(left2right, from, item)\<close> and its path is tested with \<open>match\<close> against the
  templates of every API; the hits are recorded in \<open>matches map[int][]Pair\<close>.  Two summary
  lines go to a buffered standard error.  In the substitution phase every matched item is
  rewritten with \<open>substitute(left2right, compose(from, to), item)\<close> and its
  \<open>Authorization:\<close> and \<open>Cookie:\<close> headers are rewritten by \<open>subLine\<close> or removed by
  \<open>stripLines\<close>; the items are then encoded as JSON into a buffered standard output
  (\<open>-json\<close>), and \<open>-replay\<close> stops with "replay not yet implemented".

  \<^emph>\<open>The theories.\<close>
  \<^item> \<open>Prelude\<close>: the fatal errors and panics as the datatype \<open>error\<close> and the result
    type \<open>error + 'a\<close> with \<open>bind_e\<close>; the flags (lines 27--41) as the record
    \<open>config\<close>; Go maps as association lists (\<open>gomap\<close>) in iteration order; the functions
    of Go's \<open>strings\<close> package the program calls, with their lemmas.
  \<^item> \<open>Float64\<close>: Go's \<open>float64\<close> arithmetic as \<open>match\<close> uses it: rounding of exact
    rationals to binary64, nearest with ties to even (\<open>f64_round\<close>), and the conversion
    \<open>int64(f)\<close> (\<open>go_trunc\<close>).  Lemmas: relative error at most \<open>2^-53\<close>, integers below
    \<open>2^53\<close> exact, the error of \<open>(r/o)*100\<close> below \<open>201 \<cdot> 2^-53\<close>.
  \<^item> \<open>Matcher\<close>: \<open>match\<close> (lines 294--323) with its percentage in \<open>float64\<close>, and the
    template scan of the match phase (lines 129--152).  Lemmas: the scan returns the first
    non-trivial matching template; suffix shortcut; an occurrence is needed; monotonicity
    in the threshold; the exact meaning of threshold 100; the float delta is the exact
    delta or one more, and one more only when the exact percentage is an integer, which
    happens (0.29 * 100 = 28.999999999999996).
  \<^item> \<open>Substitution\<close>: \<open>left2right\<close>, \<open>right2left\<close>, \<open>flip\<close>, \<open>compose\<close> and
    \<open>substitute\<close> (lines 325--437).  Lemmas: the composed table is a join with
    last-writer-wins on shared values and depends on the iteration order exactly then;
    segment-wise path rewriting and its round trip; every branch of \<open>substitute\<close>.
  \<^item> \<open>Headers\<close>: \<open>subLine\<close> and \<open>stripLines\<close> (lines 238--291) with the reference
    specification of stripping.  Lemmas: the lines \<open>subLine\<close> produces; \<open>stripLines\<close>
    meets the reference with one cut, and with two cuts removes the wrong line or panics
    (the index shift of its cutting loop).
  \<^item> \<open>KVLoader\<close>: \<open>ingestDb\<close> (lines 395--409) over a file system given as a map, with
    the external \<open>cfg\<close> loader modelled from the specification's KVLoader.  Lemmas: a
    database written as \<open>name=value\<close> lines loads back as itself; every loaded database is
    well formed; the two fatal errors, exactly.
  \<^item> \<open>Driver\<close>: \<open>main\<close> without output, as \<open>run\<close> over \<open>load_inputs\<close>,
    \<open>match_phase\<close> (state \<open>match_state\<close>: \<open>pathCount\<close> as a \<open>64 word\<close>, \<open>matches\<close>),
    \<open>substitution_phase\<close> and \<open>convert_item\<close>/\<open>convert_auth\<close>.  Lemmas: the match record,
    the wrap-around of \<open>pathCount\<close>, the fatal URL error, the only error of the
    substitution phase, the rewriting of the credential headers, the outcome of a run.
  \<^item> \<open>Output\<close>: Go's \<open>bufio.Writer\<close> (\<open>Write\<close> as a loop, \<open>partial_function
    (option)\<close>, and \<open>Flush\<close>) and \<open>fmt\<close>'s decimal numbers, modelled from Go's
    documented behaviour.  Lemmas: the loop always returns (\<open>bw_write_ex\<close>, by
    well-founded induction on the bytes left), a write keeps the buffer within its size and
    never takes back delivered bytes (\<open>bw_write_props\<close>), writes then \<open>Flush\<close> deliver their
    concatenation (\<open>bw_fold_put\<close>: the buffer refines an append-only stream), decimals
    read back (\<open>dec_val_go_utoa\<close>).
  \<^item> \<open>Process\<close>: \<open>main\<close> with its output as \<open>main_io\<close>: the writers of lines 78--83 and
    their deferred flushes, the \<open>-D\<close> diagnostics (\<open>scan_io\<close>, \<open>match_api_io\<close>,
    \<open>match_phase_io\<close>), the \<open>Matched\<close> reports and the summary lines, \<open>fatal\<close> (exit 1,
    buffers dropped) and panics (exit 2, buffers flushed).  Lemmas: the diagnostics do not
    change the result of the match phase; a successful run exits 0 and delivers its JSON,
    its reports and its summary lines, which read back as the counts, for every \<open>-D\<close>
    setting; a failing run exits 1 or 2 and ends with its message; the output \<open>-json -replay\<close> loses; the output of
    a panic.
  \<^item> this theory: the scenario of the specification run through the model; the
    normalisation of the match phase, which keeps concrete values (so the scenario
    correlates nothing); and the translation of the correlated paths, which spans the
    loader, the composer, the substitution engine, the header rewriter and the driver.

  \<^emph>\<open>Abstractions.\<close>  The collaborators (\<open>openapi.Parse\<close>, \<open>burpxml.Parse\<close>,
  \<open>url.Parse(..).EscapedPath()\<close>, \<open>json.Encoder\<close>, the file system) are the fields of the
  record \<open>world\<close>: functions returning a value or the fatal error, so every error path of
  \<open>main\<close> is a branch of \<open>run\<close> and of \<open>main_io\<close>.  A Go map ranged over is a list;
  where Go randomises the order, the lemmas hold for every order (\<open>compose\<close> is stated for
  permuted inputs, \<open>range matches\<close> goes through \<open>key_order\<close> and, for the diagnostics,
  \<open>diag_order\<close>), and \<open>range api.Paths\<close> is the list of templates in the order of the
  iteration.  The exception is \<open>range from\<close> inside \<open>left2right\<close>: the model visits the
  table in one list order for every call of a run, where Go draws a new order per call;
  the two agree unless the table's tokens overlap (theory \<open>Substitution\<close>).  The
  threshold \<open>*fuzzy\<close> is an \<open>int\<close> where Go has \<open>int64\<close>; it is only compared.
  \<open>bufio.Writer.WriteString\<close> is modelled with the direct path for a large write into an
  empty buffer that Go has since version 1.21 (\<open>Write\<close>, used for the JSON, always had it).  Strings are byte strings.  The float computation of \<open>match\<close> rounds every
  operation to binary64 as Go does; its lemmas assume paths shorter than \<open>2^44\<close> bytes,
  where the rounding error, below \<open>201 \<cdot> 2^-53\<close>, is less than the gap \<open>1/origin\<close>
  between exact percentages.  The only loop
  that is not structural is the write loop of \<open>bufio\<close>, defined as a partial function
  and proved to return; no fuel is used.  A slice length is below \<open>2^63\<close> (Go's
  \<open>int\<close>), which bounds the summary lines well inside the 4096-byte buffer.

  \<^emph>\<open>Not modelled.\<close>  The libraries \<open>burpxml\<close> and \<open>openapi\<close> (parsers of external
  formats; their results enter through \<open>world\<close>), the JSON text of \<open>encoding/json\<close>
  (the encoder is a collaborator), the text of library errors and of the goroutine trace
  (\<open>err_text\<close>), and the \<open>cfg\<close> library beyond the KVLoader contract of the
  specification.

  \<^emph>\<open>Plan.\<close>  Lemmas for \<open>right2left\<close>
  (the direction the specification asks for, unused by the code); the query-string
  handling of \<open>EscapedPath\<close>.
\<close>

section \<open>The scenario of the specification\<close>

definition scenario_config :: config where
  "scenario_config = default_config\<lparr>fuzzy := 50, fromName := ''from'', toName := ''to'',
     burpName := ''burp.xml'', authHeader := ''Bearer t''\<rparr>"

definition scenario_item :: item where
  "scenario_item = \<lparr>url = ''http://h/svc/v2/widgets/abc-123/info'', path = ''/svc/v2/widgets/abc-123/info'',
     request = \<lparr>raw = ''GET /svc/v2/widgets/abc-123/info'', body = []\<rparr>\<rparr>"

definition scenario_world :: world where
  "scenario_world =
     \<lparr>api_file = (\<lambda>_. Inr [''/widgets/{widgetId}/info'']),
      burp_file = (\<lambda>_ _. Inr [scenario_item]),
      db_file = (\<lambda>n. if n = ''from'' then Inr [(''widgetId'', ''abc-123'')] else Inr [(''widgetId'', ''zzz-999'')]),
      escaped_path = plain_escaped_path,
      key_order = id,
      json_encode = (\<lambda>its. Some (concat (map url its))),
      err_text = (\<lambda>_. [])\<rparr>"

text \<open>The two database files of the example run, as \<open>name=value\<close> lines.\<close>

definition example_fs :: "string \<Rightarrow> string option" where
  "example_fs n =
     (if n = ''from'' then Some (''widgetId=abc-123'' @ [nl])
      else if n = ''to'' then Some (''widgetId=zzz-999'' @ [nl]) else None)"

section \<open>Lemmas\<close>

lemma run_paths:
  assumes "\<forall>ks. mset (key_order w ks) = mset ks" and "\<not> noSub cfg" and "run cfg args w = Inr out"
  shows "\<exists>items fdb tdb. burp_file w (burpName cfg) (b64 cfg) = Inr items \<and>
    db_file w (fromName cfg) = Inr fdb \<and> db_file w (toName cfg) = Inr tdb \<and>
    mset (map path (out_future out)) =
    mset (map (\<lambda>b. rebuild_path left2right (compose fdb tdb) (the (escaped_path w (path (items ! b)))))
              (map fst (out_matches out)))"
proof -
  obtain apis items fdb tdb st future where
    "load_apis (api_file w) args = Inr apis" and
    i: "burp_file w (burpName cfg) (b64 cfg) = Inr items" and
    f: "db_file w (fromName cfg) = Inr fdb" and
    t: "db_file w (toName cfg) = Inr tdb" and
    "match_phase cfg (escaped_path w) fdb apis 0 items init_state = Inr st" and
    s: "substitution_phase cfg (escaped_path w) (compose fdb tdb) items
          (key_order w (map fst (matches st))) [] = Inr future" and
    "\<not> doReplay cfg" and
    o: "out = \<lparr>out_matches = matches st, out_pathCount = pathCount st, out_future = future,
              out_json = (if emitJSON cfg then Some future else None)\<rparr>"
    using assms(3) by (rule run_Inr)
  let ?ks = "key_order w (map fst (matches st))"
  let ?c = "convert_item cfg (escaped_path w) (compose fdb tdb)"
  let ?r = "\<lambda>b. rebuild_path left2right (compose fdb tdb) (the (escaped_path w (path (items ! b))))"
  from s have ok: "\<forall>b \<in> set ?ks. b < length items \<and> \<not> isl (?c (items ! b))"
    and fut: "future = map (\<lambda>b. projr (?c (items ! b))) ?ks"
    by (simp_all add: substitution_phase_Inr)
  have "path (projr (?c (items ! b))) = ?r b" if "b \<in> set ?ks" for b
  proof -
    from ok that have "?c (items ! b) = Inr (projr (?c (items ! b)))"
      by (cases "?c (items ! b)") auto
    from convert_item_path [OF this] assms(2) show ?thesis by simp
  qed
  then have "map path future = map ?r ?ks" by (simp add: fut)
  then have "mset (map path future) = mset (map ?r (map fst (matches st)))"
    using assms(1) by (metis mset_map)
  then show ?thesis using i f t o by auto
qed

section \<open>End-to-end properties\<close>

text \<open>
  on the end-to-end scenario of the specification (item
  \<open>/svc/v2/widgets/abc-123/info\<close>, \<open>from = {widgetId: abc-123}\<close>, template
  \<open>/widgets/{widgetId}/info\<close>, fuzzy 50) the program correlates nothing: the run
  succeeds with an empty match record and no correlated item.
\<close>

lemma spec_scenario_no_match:
  "run scenario_config [''spec.json''] scenario_world =
   Inr \<lparr>out_matches = [], out_pathCount = 1, out_future = [], out_json = None\<rparr>"
  by (simp add: run_def load_inputs_def scenario_config_def default_config_def scenario_world_def scenario_item_def
      init_state_def substitute_def plain_escaped_path_def rebuild_path_def left2right_def
      replace_all_Cons replace_all_Nil has_prefix_def match_api_def find_path_def match_def
      has_suffix_def Let_def)

text \<open>
  The normalisation of the match phase leaves the scenario's concrete path
  unchanged: \<open>left2right\<close> replaces names by values, so the value \<open>abc-123\<close> is never
  turned into the placeholder the specification expects.
\<close>

lemma spec_scenario_normalize_keeps_value:
  "rebuild_path left2right [(''widgetId'', ''abc-123'')] ''/svc/v2/widgets/abc-123/info'' =
   ''/svc/v2/widgets/abc-123/info''"
  by (simp add: rebuild_path_def left2right_def replace_all_Cons replace_all_Nil has_prefix_def)

text \<open>
  the materialisation of the scenario is as specified: substituting through the
  composition of \<open>from\<close> and \<open>to = {widgetId: zzz-999}\<close> gives
  \<open>/svc/v2/widgets/zzz-999/info\<close>.
\<close>

lemma spec_scenario_materialize:
  "rebuild_path left2right (compose [(''widgetId'', ''abc-123'')] [(''widgetId'', ''zzz-999'')])
     ''/svc/v2/widgets/abc-123/info'' = ''/svc/v2/widgets/zzz-999/info''"
  by (simp add: compose_def rebuild_path_def left2right_def replace_all_Cons replace_all_Nil has_prefix_def)

text \<open>
  C34: the normalisation of the match phase never turns a concrete identifier into its
  name: a Burp path that holds none of the names of \<open>from\<close> (whatever values it holds) is
  matched unchanged, because \<open>left2right\<close> replaces names by values.
\<close>

theorem normalisation_keeps_values:
  assumes "ep (path it) = Some base" and "\<forall>(name, v) \<in> set from. name \<noteq> [] \<and> \<not> sublist name base"
  shows "\<exists>it'. substitute cfg ep left2right from it = Inr it' \<and> path it' = base"
proof -
  obtain it' where s: "substitute cfg ep left2right from it = Inr it'"
    using substitute_parsed_Inr [of ep it cfg left2right] assms(1) by blast
  have "left2right from w = w" if "w \<in> set (go_split base CHR ''/'')" for w
  proof (rule left2right_unchanged)
    show "\<forall>(k, v) \<in> set from. k \<noteq> [] \<and> \<not> sublist k w"
      using assms(2) go_split_segment_sublist [OF that] sublist_order.order_trans by fastforce
  qed
  then have "rebuild_path left2right from base = base"
    by (simp add: rebuild_path_join join_on_map_id go_split_join)
  with substitute_Inr_path [OF s] assms(1) s show ?thesis by (auto simp: norm_path_def)
qed

text \<open>
  C7: with substitution on, the paths of the correlated items of a successful run are,
  up to order, the escaped paths of the matched Burp items rewritten segment by segment
  through the composed table; the credential conversion leaves them unchanged.
\<close>

theorem run_translates_paths:
  assumes "\<forall>ks. mset (key_order w ks) = mset ks" and "\<not> noSub cfg" and "run cfg args w = Inr out"
  shows "\<exists>items fdb tdb. burp_file w (burpName cfg) (b64 cfg) = Inr items \<and>
    db_file w (fromName cfg) = Inr fdb \<and> db_file w (toName cfg) = Inr tdb \<and>
    mset (map path (out_future out)) =
    mset (map (\<lambda>b. rebuild_path left2right (compose fdb tdb) (the (escaped_path w (path (items ! b)))))
              (map fst (out_matches out)))"
  using assms by (rule run_paths)

theorem run_translates_paths_witness:
  "\<exists>items fdb tdb. burp_file example_world (burpName example_config) (b64 example_config) = Inr items \<and>
    db_file example_world (fromName example_config) = Inr fdb \<and> db_file example_world (toName example_config) = Inr tdb \<and>
    mset (map path example_future) =
    mset (map (\<lambda>b. rebuild_path left2right (compose fdb tdb) (the (escaped_path example_world (path (items ! b)))))
              [0])"
proof -
  have k: "\<forall>ks. mset (key_order example_world ks) = mset ks" by (simp add: example_world_sel)
  have n: "\<not> noSub example_config" by (simp add: example_config_sel)
  from run_translates_paths [OF k n example_run] show ?thesis by simp
qed

text \<open>
  C28: when the two databases are read by \<open>ingestDb\<close> from files written as
  \<open>name=value\<close> lines, the paths of the correlated items are, up to order, the escaped
  paths of the matched items rewritten through the composition of exactly those databases.
\<close>

theorem run_translates_paths_files:
  assumes "\<forall>ks. mset (key_order w ks) = mset ks" and "\<not> noSub cfg"
    and "db_file w = ingestDb fs"
    and "fs (fromName cfg) = Some (kv_render fdb)" and "kv_db_ok fdb"
    and "fs (toName cfg) = Some (kv_render tdb)" and "kv_db_ok tdb"
    and "run cfg args w = Inr out"
  shows "\<exists>items. burp_file w (burpName cfg) (b64 cfg) = Inr items \<and>
    mset (map path (out_future out)) =
    mset (map (\<lambda>b. rebuild_path left2right (compose fdb tdb) (the (escaped_path w (path (items ! b)))))
              (map fst (out_matches out)))"
proof -
  have "db_file w (fromName cfg) = Inr fdb" "db_file w (toName cfg) = Inr tdb"
    using assms(3-7) by (simp_all add: ingestDb_render)
  with run_paths [OF assms(1,2,8)] show ?thesis by auto
qed

theorem run_translates_paths_files_witness:
  "\<exists>items. burp_file (example_world\<lparr>db_file := ingestDb example_fs\<rparr>) (burpName example_config) (b64 example_config) = Inr items \<and>
    mset (map path example_future) =
    mset (map (\<lambda>b. rebuild_path left2right (compose [(''widgetId'', ''abc-123'')] [(''widgetId'', ''zzz-999'')])
                 (the (escaped_path example_world (path (items ! b))))) [0])"
proof -
  let ?w = "example_world\<lparr>db_file := ingestDb example_fs\<rparr>"
  have dbs: "ingestDb example_fs ''from'' = Inr [(''widgetId'', ''abc-123'')]"
    "ingestDb example_fs ''to'' = Inr [(''widgetId'', ''zzz-999'')]"
    by (simp_all add: example_fs_def ingestDb_def kv_load_def kv_line_def)
  have c: "compose [(''widgetId'', ''abc-123'')] [(''widgetId'', ''zzz-999'')] = [(''abc-123'', ''zzz-999'')]"
    by (simp add: compose_def)
  have r: "run example_config [''api.json''] ?w =
    Inr \<lparr>out_matches = [(0, [Pair 0 1])], out_pathCount = 3, out_future = example_future,
         out_json = Some example_future\<rparr>"
    by (simp add: run_def load_inputs_def example_config_sel example_world_sel dbs example_match_phase c
        example_substitution_phase del: substitution_phase.simps)
  have k: "\<forall>ks. mset (key_order ?w ks) = mset ks" by (simp add: example_world_sel)
  have n: "\<not> noSub example_config" by (simp add: example_config_sel)
  have f: "example_fs (fromName example_config) = Some (kv_render [(''widgetId'', ''abc-123'')])"
    "example_fs (toName example_config) = Some (kv_render [(''widgetId'', ''zzz-999'')])"
    by (simp_all add: example_fs_def example_config_sel kv_render_def join_lines_def)
  have ok: "kv_db_ok [(''widgetId'', ''abc-123'')]" "kv_db_ok [(''widgetId'', ''zzz-999'')]"
    by (simp_all add: kv_db_ok_def kv_entry_ok_def)
  from run_translates_paths_files [OF k n _ f(1) ok(1) f(2) ok(2) r]
  show ?thesis by (simp add: example_world_sel)
qed


theorem normalisation_keeps_values_witness:
  "\<exists>it'. substitute scenario_config plain_escaped_path left2right [(''widgetId'', ''abc-123'')] scenario_item = Inr it' \<and>
     path it' = ''/svc/v2/widgets/abc-123/info''"
proof -
  have h1: "plain_escaped_path (path scenario_item) = Some ''/svc/v2/widgets/abc-123/info''"
    by (simp add: plain_escaped_path_def scenario_item_def)
  have h2: "\<forall>(name, v) \<in> set [(''widgetId'', ''abc-123'')]. name \<noteq> [] \<and> \<not> sublist name ''/svc/v2/widgets/abc-123/info''"
    by (simp add: sublist_code)
  from normalisation_keeps_values [of plain_escaped_path scenario_item "''/svc/v2/widgets/abc-123/info''"
      "[(''widgetId'', ''abc-123'')]" scenario_config, OF h1 h2] show ?thesis .
qed

end
